theory Spec2Isabelle
  imports Main "HOL-Library.Char_ord" "HOL-Library.List_Lexorder"
begin

section \<open>Python values shared by the models\<close>

text \<open>Exceptions of the source are values of this type; a function that can raise returns
  \<open>py_error + 'a\<close>, with \<open>Inl\<close> for the exception.\<close>

datatype py_error =
  AttributeError | KeyError | TypeError | ValueError | IndexError | AssertionError | SystemExit

section \<open>Python strings\<close>

text \<open>\<open>s.split(sep)\<close> for a one-character separator: the result is never empty, and an
  empty piece is kept where two separators meet or the string starts or ends with one.\<close>

fun split_on :: "char \<Rightarrow> string \<Rightarrow> string list" where
  "split_on c [] = [[]]"
| "split_on c (x # xs) =
     (if x = c then [] # split_on c xs
      else (case split_on c xs of
              [] \<Rightarrow> [[x]]
            | t # ts \<Rightarrow> (x # t) # ts))"

text \<open>\<open>sep.join(parts)\<close>.\<close>

fun join :: "string \<Rightarrow> string list \<Rightarrow> string" where
  "join sep [] = []"
| "join sep [x] = x"
| "join sep (x # y # ys) = x @ sep @ join sep (y # ys)"

text \<open>\<open>a in b\<close> on two strings: \<open>a\<close> occurs in \<open>b\<close> as a contiguous piece.\<close>

fun str_in :: "string \<Rightarrow> string \<Rightarrow> bool" where
  "str_in a [] = (a = [])"
| "str_in a (x # xs) = (take (length a) (x # xs) = a \<or> str_in a xs)"

text \<open>\<open>s.endswith(suffix)\<close>.\<close>

definition endswith :: "string \<Rightarrow> string \<Rightarrow> bool" where
  "endswith s suffix = (length suffix \<le> length s \<and> drop (length s - length suffix) s = suffix)"

section \<open>Python dicts that are iterated\<close>

text \<open>A dict whose iteration order matters is an association list in insertion order with
  each key once: \<open>d[k] = v\<close> replaces the value of a key that is present and appends a new
  key at the end.\<close>

fun dict_set :: "'k \<Rightarrow> 'v \<Rightarrow> ('k \<times> 'v) list \<Rightarrow> ('k \<times> 'v) list" where
  "dict_set k v [] = [(k, v)]"
| "dict_set k v (p # ps) = (if fst p = k then (k, v) # ps else p # dict_set k v ps)"

definition dict_get :: "('k \<times> 'v) list \<Rightarrow> 'k \<Rightarrow> 'v option" where
  "dict_get d k = map_of d k"

definition dict_keys :: "('k \<times> 'v) list \<Rightarrow> 'k list" where
  "dict_keys d = map fst d"

section \<open>core/utilities/logger.py\<close>

datatype LoggerLevel = DEBUG | INFO | WARNING | ERROR

type_synonym log = "(LoggerLevel \<times> string) list"

section \<open>Python strings, continued\<close>

text \<open>\<open>s.replace(old, new)\<close> for a non-empty \<open>old\<close>, which is how the source calls it: every
  occurrence from the left, without overlap.\<close>

function replace :: "string \<Rightarrow> string \<Rightarrow> string \<Rightarrow> string" where
  "replace old new [] = []"
| "replace old new (x # xs) =
     (if old \<noteq> [] \<and> take (length old) (x # xs) = old
      then new @ replace old new (drop (length old) (x # xs))
      else x # replace old new xs)"
  by pat_completeness auto
termination
  by (relation "measure (\<lambda>(old, new, s). length s)") auto

text \<open>\<open>s.strip()\<close>: white space is removed at both ends.\<close>

definition is_space :: "char \<Rightarrow> bool" where
  "is_space c = (c \<in> {CHR '' '', CHR 0x09, CHR 0x0A, CHR 0x0B, CHR 0x0C, CHR 0x0D})"

definition strip :: "string \<Rightarrow> string" where
  "strip s = rev (dropWhile is_space (rev (dropWhile is_space s)))"

text \<open>\<open>str(n)\<close> for a natural number.\<close>

definition digit_char :: "nat \<Rightarrow> char" where
  "digit_char d = ''0123456789'' ! d"

function string_of_nat :: "nat \<Rightarrow> string" where
  "string_of_nat n =
     (if n < 10 then [digit_char n] else string_of_nat (n div 10) @ [digit_char (n mod 10)])"
  by pat_completeness auto
termination
  by (relation "measure (\<lambda>n. n)") auto

declare string_of_nat.simps [simp del]

section \<open>core/utilities/filters.py\<close>

text \<open>The four classes of the module. \<open>NodeFilter\<close>, \<open>TopicFilter\<close> and
  \<open>ServiceTypeFilter\<close> inherit from \<open>Filter\<close>.\<close>

datatype filter_class = Filter | NodeFilter | TopicFilter | ServiceTypeFilter

text \<open>The exclusion containers are Python objects that class attributes and instance
  attributes point to. \<open>{}\<close> is an empty dict, \<open>{"/roslaunch"}\<close> is a set; \<open>item in obj\<close>
  works on both, \<open>obj.add(item)\<close> only on a set.\<close>

datatype exclusions = DictObj "string list" | SetObj "string list"

fun contains :: "exclusions \<Rightarrow> string \<Rightarrow> bool" where
  "contains (DictObj ks) item = (item \<in> set ks)"
| "contains (SetObj xs) item = (item \<in> set xs)"

text \<open>An instance attribute holds either a reference to a class-level container (its
  address in the heap) or the private empty dict \<open>{}\<close> that \<open>__init__\<close> creates and
  that nothing else can reach.\<close>

datatype exclusions_ref = PrivateEmpty | ClassObj nat

record filter_obj =
  f_base_exclusions :: exclusions_ref
  f_debug_exclusions :: exclusions_ref
  f_tf_exclusions :: exclusions_ref

text \<open>The attributes a class body defines itself; \<open>None\<close> means the class does not define
  the attribute and the lookup goes on to \<open>Filter\<close>. For \<open>INSTANCE\<close>, \<open>None\<close> is also the
  Python value \<open>None\<close> that \<open>Filter\<close> starts with.\<close>

record class_dict =
  c_FILTER_OUT_DEBUG :: "bool option"
  c_FILTER_OUT_TF :: "bool option"
  c_BASE_EXCLUSIONS :: "nat option"
  c_DEBUG_EXCLUSIONS :: "nat option"
  c_TF_EXCLUSIONS :: "nat option"
  c_INSTANCE :: "filter_obj option"

record filter_world =
  heap :: "nat \<Rightarrow> exclusions"
  classes :: "filter_class \<Rightarrow> class_dict"

definition class_attr :: "(class_dict \<Rightarrow> 'a option) \<Rightarrow> filter_world \<Rightarrow> filter_class \<Rightarrow> 'a option" where
  "class_attr f w c = (case f (classes w c) of Some v \<Rightarrow> Some v | None \<Rightarrow> f (classes w Filter))"

text \<open>The module as imported: eight container objects, at addresses 0 to 7.\<close>

definition initial_heap :: "nat \<Rightarrow> exclusions" where
  "initial_heap a =
     (if a = 3 then SetObj [''/roslaunch'']
      else if a = 4 then SetObj [''/rosout'']
      else if a = 5 then SetObj [''/rosout'', ''/rosout_agg'', ''/statistics'']
      else if a = 6 then SetObj [''/tf'', ''/tf_static'']
      else if a = 7 then SetObj [''roscpp/GetLoggers'', ''roscpp/SetLoggerLevel'']
      else DictObj [])"

definition no_attrs :: class_dict where
  "no_attrs = \<lparr>c_FILTER_OUT_DEBUG = None, c_FILTER_OUT_TF = None, c_BASE_EXCLUSIONS = None,
     c_DEBUG_EXCLUSIONS = None, c_TF_EXCLUSIONS = None, c_INSTANCE = None\<rparr>"

fun initial_classes :: "filter_class \<Rightarrow> class_dict" where
  "initial_classes Filter =
     \<lparr>c_FILTER_OUT_DEBUG = Some False, c_FILTER_OUT_TF = Some False, c_BASE_EXCLUSIONS = Some 0,
      c_DEBUG_EXCLUSIONS = Some 1, c_TF_EXCLUSIONS = Some 2, c_INSTANCE = None\<rparr>"
| "initial_classes NodeFilter =
     no_attrs\<lparr>c_BASE_EXCLUSIONS := Some 3, c_DEBUG_EXCLUSIONS := Some 4\<rparr>"
| "initial_classes TopicFilter =
     no_attrs\<lparr>c_DEBUG_EXCLUSIONS := Some 5, c_TF_EXCLUSIONS := Some 6\<rparr>"
| "initial_classes ServiceTypeFilter =
     no_attrs\<lparr>c_DEBUG_EXCLUSIONS := Some 7\<rparr>"

definition initial_world :: filter_world where
  "initial_world = \<lparr>heap = initial_heap, classes = initial_classes\<rparr>"

text \<open>\<open>Filter.__init__(self, filter_out_debug, filter_out_tf)\<close>, run for class \<open>c\<close>.\<close>

definition Filter_init :: "filter_world \<Rightarrow> filter_class \<Rightarrow> bool \<Rightarrow> bool \<Rightarrow> py_error + filter_obj" where
  "Filter_init w c filter_out_debug filter_out_tf =
     (case class_attr c_BASE_EXCLUSIONS w c of
        None \<Rightarrow> Inl AttributeError
      | Some b \<Rightarrow>
         (case (if filter_out_debug then map_option ClassObj (class_attr c_DEBUG_EXCLUSIONS w c)
                else Some PrivateEmpty) of
            None \<Rightarrow> Inl AttributeError
          | Some d \<Rightarrow>
             (case (if filter_out_tf then map_option ClassObj (class_attr c_TF_EXCLUSIONS w c)
                    else Some PrivateEmpty) of
                None \<Rightarrow> Inl AttributeError
              | Some t \<Rightarrow>
                 Inr \<lparr>f_base_exclusions = ClassObj b, f_debug_exclusions = d,
                      f_tf_exclusions = t\<rparr>)))"

definition deref :: "filter_world \<Rightarrow> exclusions_ref \<Rightarrow> exclusions" where
  "deref w r = (case r of PrivateEmpty \<Rightarrow> DictObj [] | ClassObj a \<Rightarrow> heap w a)"

definition should_filter_out :: "filter_world \<Rightarrow> filter_obj \<Rightarrow> string \<Rightarrow> bool" where
  "should_filter_out w self item =
     (contains (deref w (f_base_exclusions self)) item
      \<or> contains (deref w (f_debug_exclusions self)) item
      \<or> contains (deref w (f_tf_exclusions self)) item)"

text \<open>\<open>cls.get_filter()\<close>: the instance is created on the first call and stored in
  \<open>cls.INSTANCE\<close>, an attribute of \<open>cls\<close> itself.\<close>

definition get_filter :: "filter_class \<Rightarrow> filter_world \<Rightarrow> py_error + (filter_obj \<times> filter_world)" where
  "get_filter c w =
     (case class_attr c_INSTANCE w c of
        Some inst \<Rightarrow> Inr (inst, w)
      | None \<Rightarrow>
         (case (class_attr c_FILTER_OUT_DEBUG w c, class_attr c_FILTER_OUT_TF w c) of
            (Some fd, Some ft) \<Rightarrow>
              (case Filter_init w c fd ft of
                 Inl e \<Rightarrow> Inl e
               | Inr inst \<Rightarrow>
                  Inr (inst, w\<lparr>classes := (classes w)(c := (classes w c)\<lparr>c_INSTANCE := Some inst\<rparr>)\<rparr>))
          | _ \<Rightarrow> Inl AttributeError))"

text \<open>\<open>cls.BASE_EXCLUSIONS.add(item)\<close>, as \<open>main\<close> and \<open>ROSSnapshot.snapshot\<close> do for
  \<open>NodeFilter\<close>: the container the class attribute points to is changed in place.\<close>

definition BASE_EXCLUSIONS_add :: "filter_class \<Rightarrow> string \<Rightarrow> filter_world \<Rightarrow> py_error + filter_world" where
  "BASE_EXCLUSIONS_add c item w =
     (case class_attr c_BASE_EXCLUSIONS w c of
        None \<Rightarrow> Inl AttributeError
      | Some a \<Rightarrow>
         (case heap w a of
            DictObj ks \<Rightarrow> Inl AttributeError
          | SetObj xs \<Rightarrow>
             Inr (w\<lparr>heap := (heap w)(a := SetObj (if item \<in> set xs then xs else xs @ [item]))\<rparr>)))"

text \<open>\<open>cls.FILTER_OUT_DEBUG = v\<close> and \<open>cls.FILTER_OUT_TF = v\<close>, as \<open>main\<close> does for \<open>Filter\<close>.\<close>

definition set_FILTER_OUT_DEBUG :: "filter_class \<Rightarrow> bool \<Rightarrow> filter_world \<Rightarrow> filter_world" where
  "set_FILTER_OUT_DEBUG c v w =
     w\<lparr>classes := (classes w)(c := (classes w c)\<lparr>c_FILTER_OUT_DEBUG := Some v\<rparr>)\<rparr>"

definition set_FILTER_OUT_TF :: "filter_class \<Rightarrow> bool \<Rightarrow> filter_world \<Rightarrow> filter_world" where
  "set_FILTER_OUT_TF c v w =
     w\<lparr>classes := (classes w)(c := (classes w c)\<lparr>c_FILTER_OUT_TF := Some v\<rparr>)\<rparr>"

text \<open>What the rest of the program does with the module: it asks a subclass for its
  singleton, adds to a class-level base set, or assigns a flag. A call that raises leaves
  the module as it was.\<close>

datatype filter_call =
    GetFilter filter_class
  | AddBase filter_class string
  | SetDebug filter_class bool
  | SetTF filter_class bool

fun filter_step :: "filter_call \<Rightarrow> filter_world \<Rightarrow> filter_world" where
  "filter_step (GetFilter c) w = (case get_filter c w of Inl e \<Rightarrow> w | Inr (inst, w') \<Rightarrow> w')"
| "filter_step (AddBase c item) w = (case BASE_EXCLUSIONS_add c item w of Inl e \<Rightarrow> w | Inr w' \<Rightarrow> w')"
| "filter_step (SetDebug c v) w = set_FILTER_OUT_DEBUG c v w"
| "filter_step (SetTF c v) w = set_FILTER_OUT_TF c v w"

fun filter_run :: "filter_call list \<Rightarrow> filter_world \<Rightarrow> filter_world" where
  "filter_run [] w = w"
| "filter_run (x # xs) w = filter_run xs (filter_step x w)"

text \<open>What every reachable state of the module keeps: no class attribute \<open>BASE_EXCLUSIONS\<close>
  is ever rebound, \<open>Filter\<close> itself has no singleton, and a singleton's base reference is
  its class's container.\<close>

definition base_addr :: "filter_class \<Rightarrow> nat" where
  "base_addr c = (if c = NodeFilter then 3 else 0)"

definition filter_inv :: "filter_world \<Rightarrow> bool" where
  "filter_inv w \<longleftrightarrow>
     (\<forall>c. class_attr c_BASE_EXCLUSIONS w c = Some (base_addr c))
   \<and> c_INSTANCE (classes w Filter) = None
   \<and> (\<forall>c i. c_INSTANCE (classes w c) = Some i \<longrightarrow> f_base_exclusions i = ClassObj (base_addr c))"

definition heap_grows :: "filter_world \<Rightarrow> filter_world \<Rightarrow> bool" where
  "heap_grows w w' \<longleftrightarrow> (\<forall>a item. contains (heap w a) item \<longrightarrow> contains (heap w' a) item)"

text \<open>A concrete run: the \<open>NodeFilter\<close> singleton is created first, then the snapshot node's
  name is added to \<open>NodeFilter.BASE_EXCLUSIONS\<close>.\<close>

definition node_filter_singleton :: filter_obj where
  "node_filter_singleton =
     \<lparr>f_base_exclusions = ClassObj 3, f_debug_exclusions = PrivateEmpty,
      f_tf_exclusions = PrivateEmpty\<rparr>"

definition world_after_add :: filter_world where
  "world_after_add =
     \<lparr>heap = initial_heap(3 := SetObj [''/roslaunch'', ''/ros_snapshot'']),
      classes = initial_classes(NodeFilter :=
        (initial_classes NodeFilter)\<lparr>c_INSTANCE := Some node_filter_singleton\<rparr>)\<rparr>"

section \<open>snapshot/builders/base_builders.py\<close>

text \<open>\<open>_EntityBuilder\<close>: the three attributes of the base class, and in \<open>b_data\<close> what the
  subclass constructor adds.\<close>

record 'a entity_builder =
  b_name :: string
  b_name_suffix :: string
  b_name_base :: string
  b_data :: 'a

definition EntityBuilder_init :: "string \<Rightarrow> 'a \<Rightarrow> 'a entity_builder" where
  "EntityBuilder_init name d =
     (let name_tokens = split_on CHR ''/'' name
      in \<lparr>b_name = name,
          b_name_suffix = ''/'' @ last name_tokens,
          b_name_base = join ''/'' (take (length name_tokens - 1) name_tokens),
          b_data = d\<rparr>)"

text \<open>\<open>_BankBuilder._names_to_entity_builders\<close>, a dict from names to builders.\<close>

type_synonym 'a bank = "string \<rightharpoonup> 'a entity_builder"

text \<open>What a concrete bank builder class supplies: the rest of its builder's constructor
  (every \<open>_create_entity_builder\<close> of the repository is \<open>Builder(name)\<close>, whose constructor
  starts with the base constructor), its \<open>_should_filter_out\<close> (\<open>False\<close> in the base class)
  and its builder's \<open>prepare\<close> (which does nothing in the base class).\<close>

record 'a bank_class =
  builder_data :: "string \<Rightarrow> 'a"
  should_filter_out_entity :: "string \<Rightarrow> 'a entity_builder \<Rightarrow> bool"
  entity_prepare :: "'a entity_builder \<Rightarrow> 'a entity_builder"

definition create_entity_builder :: "'a bank_class \<Rightarrow> string \<Rightarrow> 'a entity_builder" where
  "create_entity_builder cls name = EntityBuilder_init name (builder_data cls name)"

definition add_entity_builder :: "'a entity_builder \<Rightarrow> 'a bank \<Rightarrow> 'a bank" where
  "add_entity_builder entity_builder bank = bank(b_name entity_builder \<mapsto> entity_builder)"

text \<open>\<open>_BankBuilder.__getitem__\<close>. The last line reads the dict again, which raises
  \<open>KeyError\<close> if the name is still missing.\<close>

definition bank_getitem :: "'a bank_class \<Rightarrow> string \<Rightarrow> 'a bank \<Rightarrow> py_error + ('a entity_builder \<times> 'a bank)" where
  "bank_getitem cls name bank =
     (let bank' = (if bank name = None
                   then add_entity_builder (create_entity_builder cls name) bank
                   else bank)
      in case bank' name of
           None \<Rightarrow> Inl KeyError
         | Some b \<Rightarrow> Inr (b, bank'))"

definition gather_filtered_names_to_entity_builders :: "'a bank_class \<Rightarrow> 'a bank \<Rightarrow> 'a bank" where
  "gather_filtered_names_to_entity_builders cls bank =
     (\<lambda>name. case bank name of
               None \<Rightarrow> None
             | Some entity_builder \<Rightarrow>
                 if \<not> should_filter_out_entity cls name entity_builder
                 then Some entity_builder else None)"

text \<open>\<open>_BankBuilder.prepare\<close>: the filtered dict replaces the old one, then every builder left
  is prepared; \<open>_post_prepare\<close> does nothing.\<close>

definition bank_prepare :: "'a bank_class \<Rightarrow> 'a bank \<Rightarrow> 'a bank" where
  "bank_prepare cls bank =
     map_option (entity_prepare cls) \<circ> gather_filtered_names_to_entity_builders cls bank"

text \<open>A node bank whose filter excludes \<open>/rosout\<close>.\<close>

definition example_node_bank_class :: "unit bank_class" where
  "example_node_bank_class =
     \<lparr>builder_data = (\<lambda>name. ()),
      should_filter_out_entity = (\<lambda>name b. name = ''/rosout''),
      entity_prepare = (\<lambda>b. b)\<rparr>"

definition example_node_bank :: "unit bank" where
  "example_node_bank =
     Map.empty(''/rosout'' \<mapsto> create_entity_builder example_node_bank_class ''/rosout'',
               ''/talker'' \<mapsto> create_entity_builder example_node_bank_class ''/talker'')"

section \<open>snapshot/builders/topic_builder.py\<close>

text \<open>\<open>TopicBuilder._construct_type\<close> is \<open>None\<close>, a type name, or the list of type names that
  \<open>TopicBankBuilder._find_topic_type\<close> leaves when a topic has several types.\<close>

datatype construct_type = NoType | TypeStr string | TypeSeq "string list"

record topic_data =
  t_construct_type :: construct_type
  t_published :: "string list"
  t_subscribed :: "string list"

type_synonym topic_builder = "topic_data entity_builder"

definition TopicBuilder_init :: "string \<Rightarrow> topic_builder" where
  "TopicBuilder_init name =
     EntityBuilder_init name \<lparr>t_construct_type = NoType, t_published = [], t_subscribed = []\<rparr>"

text \<open>\<open>publisher_node_names\<close> and \<open>subscriber_node_names\<close>: the names the node filter's singleton
  does not filter out, each once. \<open>node_filter\<close> is that singleton's \<open>should_filter_out\<close>.\<close>

definition publisher_node_names :: "(string \<Rightarrow> bool) \<Rightarrow> topic_builder \<Rightarrow> string list" where
  "publisher_node_names node_filter tb =
     remdups (filter (\<lambda>name. \<not> node_filter name) (t_published (b_data tb)))"

definition subscriber_node_names :: "(string \<Rightarrow> bool) \<Rightarrow> topic_builder \<Rightarrow> string list" where
  "subscriber_node_names node_filter tb =
     remdups (filter (\<lambda>name. \<not> node_filter name) (t_subscribed (b_data tb)))"

section \<open>snapshot/builders/action_builder.py\<close>

definition CLIENT_PUBLISHED_TOPIC_SUFFIXES :: "string list" where
  "CLIENT_PUBLISHED_TOPIC_SUFFIXES = [''/cancel'', ''/goal'']"

definition SERVER_PUBLISHED_TOPIC_SUFFIXES :: "string list" where
  "SERVER_PUBLISHED_TOPIC_SUFFIXES = [''/feedback'', ''/result'', ''/status'']"

definition TOPIC_SUFFIXES :: "string list" where
  "TOPIC_SUFFIXES = remdups (CLIENT_PUBLISHED_TOPIC_SUFFIXES @ SERVER_PUBLISHED_TOPIC_SUFFIXES)"

definition NUM_TOPIC_SUFFIXES :: nat where
  "NUM_TOPIC_SUFFIXES = length TOPIC_SUFFIXES"

definition CORE_TOPIC_SUFFIXES_TO_TYPE_TOKENS :: "(string \<times> string) list" where
  "CORE_TOPIC_SUFFIXES_TO_TYPE_TOKENS =
     [(''/feedback'', ''Feedback''), (''/goal'', ''Goal''), (''/result'', ''Result'')]"

record action_data =
  a_construct_type :: "string option"
  a_topic_names_to_builders :: "(string \<times> topic_builder) list"
  a_topic_name_suffixes_to_builders :: "(string \<times> topic_builder) list"
  a_client_node_names :: "string list"
  a_server_node_names :: "string list"

type_synonym action_builder = "action_data entity_builder"

definition ActionBuilder_init :: "string \<Rightarrow> action_builder" where
  "ActionBuilder_init name =
     EntityBuilder_init name
       \<lparr>a_construct_type = None, a_topic_names_to_builders = [],
        a_topic_name_suffixes_to_builders = [], a_client_node_names = [],
        a_server_node_names = []\<rparr>"

definition add_topic_builder :: "topic_builder \<Rightarrow> action_builder \<Rightarrow> action_builder" where
  "add_topic_builder tb self =
     self\<lparr>b_data := (b_data self)
       \<lparr>a_topic_names_to_builders :=
          dict_set (b_name tb) tb (a_topic_names_to_builders (b_data self)),
        a_topic_name_suffixes_to_builders :=
          dict_set (b_name_suffix tb) tb (a_topic_name_suffixes_to_builders (b_data self))\<rparr>\<rparr>"

text \<open>\<open>_add_or_increment_dictionary_count\<close>: after the first statement the key is present, so
  the increment cannot raise.\<close>

definition add_or_increment_dictionary_count :: "(string \<times> nat) list \<Rightarrow> string \<Rightarrow> (string \<times> nat) list" where
  "add_or_increment_dictionary_count counts_dictionary key =
     (let d = (if dict_get counts_dictionary key = None
               then dict_set key 0 counts_dictionary else counts_dictionary)
      in case dict_get d key of
           None \<Rightarrow> d
         | Some c \<Rightarrow> dict_set key (c + 1) d)"

text \<open>One of the two loops of \<open>_count_action_node_appearances\<close>: \<open>names_of\<close> is
  \<open>publisher_node_names\<close> in the first loop and \<open>subscriber_node_names\<close> in the second. A
  suffix with no topic builder raises \<open>KeyError\<close>.\<close>

fun count_suffixes :: "(topic_builder \<Rightarrow> string list) \<Rightarrow> action_builder \<Rightarrow> string list
    \<Rightarrow> (string \<times> nat) list \<Rightarrow> py_error + (string \<times> nat) list" where
  "count_suffixes names_of self [] counts = Inr counts"
| "count_suffixes names_of self (suffix # suffixes) counts =
     (case dict_get (a_topic_name_suffixes_to_builders (b_data self)) suffix of
        None \<Rightarrow> Inl KeyError
      | Some topic_builder \<Rightarrow>
          count_suffixes names_of self suffixes
            (foldl add_or_increment_dictionary_count counts (names_of topic_builder)))"

definition count_action_node_appearances :: "(string \<Rightarrow> bool) \<Rightarrow> action_builder \<Rightarrow> string list
    \<Rightarrow> string list \<Rightarrow> (string \<times> nat) list \<Rightarrow> py_error + (string \<times> nat) list" where
  "count_action_node_appearances node_filter self publisher_suffixes subscriber_suffixes
       action_node_to_counts =
     (case count_suffixes (publisher_node_names node_filter) self publisher_suffixes
             action_node_to_counts of
        Inl e \<Rightarrow> Inl e
      | Inr counts \<Rightarrow>
          count_suffixes (subscriber_node_names node_filter) self subscriber_suffixes counts)"

text \<open>\<open>_gather_valid_action_node_names_based_on_appearance_counts\<close>, with the log it writes:
  one error message for each node name that is not taken.\<close>

definition not_valid_message :: "string \<Rightarrow> LoggerLevel \<times> string" where
  "not_valid_message node_name =
     (ERROR, ''Node name '' @ node_name @ '' for Action not valid as action client or server.'')"

fun gather_valid_action_node_names :: "(string \<times> nat) list \<Rightarrow> string list \<times> log" where
  "gather_valid_action_node_names [] = ([], [])"
| "gather_valid_action_node_names ((node_name, appearance_count) # rest) =
     (let (valid_node_names, lg) = gather_valid_action_node_names rest
      in if appearance_count = NUM_TOPIC_SUFFIXES
         then (node_name # valid_node_names, lg)
         else (valid_node_names, not_valid_message node_name # lg))"

text \<open>\<open>_validate_topic_builders_have_required_suffixes\<close>.\<close>

definition validate_topic_builders_have_required_suffixes :: "topic_builder list \<Rightarrow> bool" where
  "validate_topic_builders_have_required_suffixes topic_builders =
     (let found_topic_suffixes = remdups (map b_name_suffix topic_builders)
      in length found_topic_suffixes \<ge> 3
         \<and> list_all (\<lambda>s. s \<in> set TOPIC_SUFFIXES) found_topic_suffixes)"

text \<open>\<open>_validate_core_topic_builders_have_required_types\<close>: the loop returns \<open>False\<close> at the
  first core suffix that is missing or whose type is \<open>None\<close>, empty or not ending in
  \<open>Action<token>\<close>; \<open>endswith\<close> on a non-empty list of types raises \<open>AttributeError\<close>.\<close>

fun validate_core_topic_builders_have_required_types ::
    "(string \<times> string) list \<Rightarrow> (string \<times> topic_builder) list \<Rightarrow> py_error + bool" where
  "validate_core_topic_builders_have_required_types [] d = Inr True"
| "validate_core_topic_builders_have_required_types ((core_suffix, type_token) # rest) d =
     (case dict_get d core_suffix of
        None \<Rightarrow> Inr False
      | Some topic_builder \<Rightarrow>
         (case t_construct_type (b_data topic_builder) of
            NoType \<Rightarrow> Inr False
          | TypeStr topic_type \<Rightarrow>
              if topic_type = [] \<or> \<not> endswith topic_type (''Action'' @ type_token)
              then Inr False
              else validate_core_topic_builders_have_required_types rest d
          | TypeSeq types \<Rightarrow>
              if types = [] then Inr False else Inl AttributeError))"

definition validate_action_topic_builders :: "action_builder \<Rightarrow> py_error + bool" where
  "validate_action_topic_builders self =
     (let valid_topic_suffixes =
            validate_topic_builders_have_required_suffixes
              (map snd (a_topic_names_to_builders (b_data self)))
      in case validate_core_topic_builders_have_required_types
                CORE_TOPIC_SUFFIXES_TO_TYPE_TOKENS
                (a_topic_name_suffixes_to_builders (b_data self)) of
           Inl e \<Rightarrow> Inl e
         | Inr valid_core_topic_types \<Rightarrow> Inr (valid_topic_suffixes \<and> valid_core_topic_types))"

text \<open>An action \<open>/fib\<close> with its five topics, the client \<open>/cli\<close> and the server \<open>/srv\<close>; and
  the same action with only two of the topics.\<close>

definition example_topic :: "string \<Rightarrow> string \<Rightarrow> string list \<Rightarrow> string list \<Rightarrow> topic_builder" where
  "example_topic name ty pubs subs =
     (TopicBuilder_init name)
       \<lparr>b_data := \<lparr>t_construct_type = TypeStr ty, t_published = pubs, t_subscribed = subs\<rparr>\<rparr>"

definition example_action :: action_builder where
  "example_action =
     fold add_topic_builder
       [example_topic ''/fib/cancel'' ''actionlib_msgs/GoalID'' [''/cli''] [''/srv''],
        example_topic ''/fib/goal'' ''pkg/FibActionGoal'' [''/cli''] [''/srv''],
        example_topic ''/fib/feedback'' ''pkg/FibActionFeedback'' [''/srv''] [''/cli''],
        example_topic ''/fib/result'' ''pkg/FibActionResult'' [''/srv''] [''/cli''],
        example_topic ''/fib/status'' ''actionlib_msgs/GoalStatusArray'' [''/srv''] [''/cli'', ''/mon'']]
       (ActionBuilder_init ''/fib'')"

definition example_action_two_topics :: action_builder where
  "example_action_two_topics =
     fold add_topic_builder
       [example_topic ''/fib/goal'' ''pkg/FibActionGoal'' [''/cli''] [''/srv''],
        example_topic ''/fib/result'' ''pkg/FibActionResult'' [''/srv''] [''/cli'']]
       (ActionBuilder_init ''/fib'')"

text \<open>For the statements about the counts: on how many of the checked suffixes a node
  appears, that is, how many of the suffixes have a topic builder that lists the node; and
  the count a dict holds for a node, 0 when it has none.\<close>

definition appearances :: "(topic_builder \<Rightarrow> string list) \<Rightarrow> action_builder \<Rightarrow> string list \<Rightarrow> string \<Rightarrow> nat" where
  "appearances names_of self suffixes node_name =
     length (filter (\<lambda>suffix.
        case dict_get (a_topic_name_suffixes_to_builders (b_data self)) suffix of
          None \<Rightarrow> False
        | Some topic_builder \<Rightarrow> node_name \<in> set (names_of topic_builder)) suffixes)"

definition count_of :: "(string \<times> nat) list \<Rightarrow> string \<Rightarrow> nat" where
  "count_of d k = (case dict_get d k of None \<Rightarrow> 0 | Some c \<Rightarrow> c)"

text \<open>Every stored count is positive, and the keys are distinct.\<close>

definition counts_ok :: "(string \<times> nat) list \<Rightarrow> bool" where
  "counts_ok d \<longleftrightarrow> distinct (dict_keys d) \<and> (\<forall>(k, c) \<in> set d. 0 < c)"

section \<open>snapshot/builders/node_builder.py: matching a node to a process\<close>

text \<open>One entry of \<open>NodeBuilder.__processes\<close>, as \<open>list_ros_like_processes\<close> makes it: the
  command line is a list of non-empty strings, possibly empty, and \<open>assigned\<close> starts as
  \<open>None\<close>. The dict itself, keyed by pid, is the list of its values in iteration order.\<close>

record process =
  p_pid :: nat
  p_ppid :: nat
  p_name :: string
  p_cmdline :: "string list"
  p_assigned :: "string option"

text \<open>The body of the loop over \<open>cmdline\<close>. The two length tests of the source divide by 2
  with true division; \<open>n \<ge> m / 2\<close> is \<open>2 * n \<ge> m\<close>.\<close>

definition scan_cmd :: "string \<Rightarrow> string \<Rightarrow> bool \<times> bool \<Rightarrow> string \<Rightarrow> bool \<times> bool" where
  "scan_cmd namespace node_name found cmd =
     (let node_parts = split_on CHR ''_'' node_name;
          last_cmd = last (split_on CHR ''/'' cmd);
          found_ns = (if str_in (''__ns:='' @ namespace) cmd then True else fst found);
          found_name =
            (if str_in node_name last_cmd then True
             else (let cmd_parts = split_on CHR ''_'' last_cmd;
                       parts_match = filter (\<lambda>s. str_in s last_cmd) node_parts;
                       cmd_match = filter (\<lambda>s. str_in s node_name) cmd_parts
                   in if 2 * length parts_match \<ge> length node_parts
                         \<and> 2 * length cmd_match \<ge> length cmd_parts
                      then True else snd found))
      in (found_ns, found_name))"

text \<open>Whether the first loop of \<open>get_node_pid\<close> puts the process into \<open>possible_procs\<close>.\<close>

definition is_candidate :: "string \<Rightarrow> string \<Rightarrow> process \<Rightarrow> bool" where
  "is_candidate namespace node_name proc =
     (let cmdline = p_cmdline proc
      in if cmdline \<noteq> [] then
           (let found_ns = (namespace = ''/'');
                found_name = (p_name proc = node_name);
                found = (if \<not> found_ns \<or> \<not> found_name
                         then foldl (scan_cmd namespace node_name) (found_ns, found_name) cmdline
                         else (found_ns, found_name))
            in fst found \<and> snd found)
         else False)"

text \<open>The marker written into \<open>assigned\<close>.\<close>

definition assigned_label :: "string \<Rightarrow> string \<Rightarrow> string" where
  "assigned_label namespace node_name =
     (if namespace \<noteq> ''/'' then join ''/'' [namespace, node_name] else node_name)"

definition mark_assigned :: "string \<Rightarrow> string \<Rightarrow> nat \<Rightarrow> process list \<Rightarrow> process list" where
  "mark_assigned namespace node_name pid procs =
     map (\<lambda>proc. if p_pid proc = pid
                  then (case p_assigned proc of
                          None \<Rightarrow> proc\<lparr>p_assigned := Some (assigned_label namespace node_name)\<rparr>
                        | Some a \<Rightarrow>
                            proc\<lparr>p_assigned := Some (a @ '','' @ assigned_label namespace node_name)\<rparr>)
                  else proc) procs"

text \<open>What is left of several candidates: first every candidate that is the parent of a
  candidate is removed, then every candidate that is already assigned.\<close>

definition remove_parents :: "process list \<Rightarrow> process list" where
  "remove_parents possible_procs =
     (let parents_to_remove =
            [p_ppid proc. proc \<leftarrow> possible_procs, p_ppid proc \<in> set (map p_pid possible_procs)]
      in filter (\<lambda>proc. p_pid proc \<notin> set parents_to_remove) possible_procs)"

definition remove_assigned :: "process list \<Rightarrow> process list" where
  "remove_assigned possible_procs =
     (let previously_assigned = [p_pid proc. proc \<leftarrow> possible_procs, p_assigned proc \<noteq> None]
      in filter (\<lambda>proc. p_pid proc \<notin> set previously_assigned) possible_procs)"

text \<open>\<open>get_node_pid\<close>: the pid found, or \<open>None\<close>, and the processes with the marker of the
  selected one updated.\<close>

definition get_node_pid :: "process list \<Rightarrow> string \<Rightarrow> string \<Rightarrow> bool \<Rightarrow> nat option \<times> process list" where
  "get_node_pid processes namespace node_name guess =
     (let possible_procs = filter (is_candidate namespace node_name) processes
      in case possible_procs of
           [] \<Rightarrow> (None, processes)
         | [proc] \<Rightarrow> (Some (p_pid proc), mark_assigned namespace node_name (p_pid proc) processes)
         | _ \<Rightarrow>
            (case remove_assigned (remove_parents possible_procs) of
               [] \<Rightarrow> (None, processes)
             | [proc] \<Rightarrow>
                 (Some (p_pid proc), mark_assigned namespace node_name (p_pid proc) processes)
             | proc # _ \<Rightarrow>
                 if \<not> guess then (None, processes)
                 else (Some (p_pid proc),
                       mark_assigned namespace node_name (p_pid proc) processes)))"

text \<open>The candidate rule in the words of the specification: the namespace matches by a
  \<open>__ns:=<namespace>\<close> token in some command line entry or is the root, and the name matches
  by the process name, by occurring in the last path segment of some entry, or by the token
  overlap of the node name and that segment (each split on \<open>_\<close>; at least half of the tokens
  of each occur in the other string).\<close>

definition last_segment :: "string \<Rightarrow> string" where
  "last_segment cmd = last (split_on CHR ''/'' cmd)"

definition token_overlap :: "string \<Rightarrow> string \<Rightarrow> bool" where
  "token_overlap node_name seg =
     (2 * length (filter (\<lambda>s. str_in s seg) (split_on CHR ''_'' node_name))
         \<ge> length (split_on CHR ''_'' node_name)
      \<and> 2 * length (filter (\<lambda>s. str_in s node_name) (split_on CHR ''_'' seg))
         \<ge> length (split_on CHR ''_'' seg))"

definition candidate_rule :: "string \<Rightarrow> string \<Rightarrow> process \<Rightarrow> bool" where
  "candidate_rule namespace node_name proc =
     (((\<exists>cmd \<in> set (p_cmdline proc). str_in (''__ns:='' @ namespace) cmd) \<or> namespace = ''/'')
      \<and> (p_name proc = node_name
          \<or> (\<exists>cmd \<in> set (p_cmdline proc). str_in node_name (last_segment cmd))
          \<or> (\<exists>cmd \<in> set (p_cmdline proc). token_overlap node_name (last_segment cmd))))"

text \<open>Example processes: a process named like the node with no command line, and a talker
  that is already assigned to another node.\<close>

definition proc_no_cmdline :: process where
  "proc_no_cmdline =
     \<lparr>p_pid = 41, p_ppid = 1, p_name = ''talker'', p_cmdline = [], p_assigned = None\<rparr>"

definition proc_talker :: process where
  "proc_talker =
     \<lparr>p_pid = 42, p_ppid = 1, p_name = ''python3'',
      p_cmdline = [''python3'', ''/ws/install/pkg/lib/pkg/talker'', ''--ros-args'', ''-r'', ''__ns:=/demo''],
      p_assigned = Some ''listener''\<rparr>"

definition proc_talker_2 :: process where
  "proc_talker_2 =
     \<lparr>p_pid = 43, p_ppid = 1, p_name = ''python3'',
      p_cmdline = [''python3'', ''/ws/install/pkg/lib/pkg/talker_2''],
      p_assigned = None\<rparr>"

text \<open>What \<open>get_node_pid\<close> takes from a candidate list when it does not guess: the pid of
  the only element, if there is exactly one.\<close>

definition pick_one :: "process list \<Rightarrow> nat option" where
  "pick_one xs = (case xs of [proc] \<Rightarrow> Some (p_pid proc) | _ \<Rightarrow> None)"

section \<open>core/base_metamodel.py: entity attributes and their values\<close>

text \<open>The values an attribute of an entity holds: the scalars \<open>None\<close>, \<open>bool\<close>, \<open>int\<close>, \<open>str\<close>,
  dicts and sets of scalars, and lists of all of these (\<open>update_attributes\<close> can append a
  dict or a set to a list, but never a list to a list).\<close>

datatype scalar = PNone | PBool bool | PInt int | PStr string

datatype elem = ESc scalar | EDict "(scalar \<times> scalar) list" | ESet "scalar list"

datatype pyval = Elem elem | PList "elem list"

abbreviation Sc :: "scalar \<Rightarrow> pyval" where
  "Sc s \<equiv> Elem (ESc s)"

abbreviation PDict :: "(scalar \<times> scalar) list \<Rightarrow> pyval" where
  "PDict d \<equiv> Elem (EDict d)"

abbreviation PSet :: "scalar list \<Rightarrow> pyval" where
  "PSet xs \<equiv> Elem (ESet xs)"

text \<open>Python's \<open>==\<close>: \<open>True\<close> and \<open>False\<close> equal \<open>1\<close> and \<open>0\<close>, dicts are compared as maps and
  sets as sets, values of different kinds differ. Two values are equal when their normal
  forms are.\<close>

fun norm :: "scalar \<Rightarrow> scalar" where
  "norm (PBool b) = PInt (if b then 1 else 0)"
| "norm s = s"

datatype nf = NSc scalar | NDict "scalar \<Rightarrow> scalar option" | NSet "scalar set"

fun elem_nf :: "elem \<Rightarrow> nf" where
  "elem_nf (ESc s) = NSc (norm s)"
| "elem_nf (EDict d) = NDict (map_of (map (\<lambda>(k, v). (norm k, norm v)) d))"
| "elem_nf (ESet xs) = NSet (norm ` set xs)"

definition elem_eq :: "elem \<Rightarrow> elem \<Rightarrow> bool" where
  "elem_eq a b = (elem_nf a = elem_nf b)"

fun py_eq :: "pyval \<Rightarrow> pyval \<Rightarrow> bool" where
  "py_eq (Elem a) (Elem b) = elem_eq a b"
| "py_eq (PList xs) (PList ys) = list_all2 elem_eq xs ys"
| "py_eq _ _ = False"

text \<open>\<open>x in xs\<close> for a list \<open>xs\<close>.\<close>

definition py_in :: "elem \<Rightarrow> elem list \<Rightarrow> bool" where
  "py_in x xs = list_ex (elem_eq x) xs"

text \<open>Iterating over a value, as \<open>dict.update\<close> and \<open>set.update\<close> do with their argument: a
  list gives its elements, a set its members, a dict its keys, a string its characters;
  the other scalars are not iterable.\<close>

fun iter_elem :: "elem \<Rightarrow> py_error + scalar list" where
  "iter_elem (ESc (PStr s)) = Inr (map (\<lambda>c. PStr [c]) s)"
| "iter_elem (ESc _) = Inl TypeError"
| "iter_elem (EDict d) = Inr (map fst d)"
| "iter_elem (ESet xs) = Inr xs"

fun py_iter :: "pyval \<Rightarrow> py_error + elem list" where
  "py_iter (PList xs) = Inr xs"
| "py_iter (Elem e) = (case iter_elem e of Inl err \<Rightarrow> Inl err | Inr xs \<Rightarrow> Inr (map ESc xs))"

text \<open>\<open>d[k] = v\<close> on a dict of scalars: the key is found up to \<open>==\<close>, and the dict keeps the
  key object it already has.\<close>

fun dict_put :: "scalar \<Rightarrow> scalar \<Rightarrow> (scalar \<times> scalar) list \<Rightarrow> (scalar \<times> scalar) list" where
  "dict_put k v [] = [(k, v)]"
| "dict_put k v (p # ps) =
     (if norm (fst p) = norm k then (fst p, v) # ps else p # dict_put k v ps)"

definition dict_put_all :: "(scalar \<times> scalar) list \<Rightarrow> (scalar \<times> scalar) list \<Rightarrow> (scalar \<times> scalar) list" where
  "dict_put_all d pairs = foldl (\<lambda>d (k, v). dict_put k v d) d pairs"

text \<open>\<open>d.update(other)\<close>: a dict argument gives its items; any other argument is iterated, and
  each element must itself iterate to exactly two values, the key and the value.\<close>

fun as_pair :: "elem \<Rightarrow> py_error + (scalar \<times> scalar)" where
  "as_pair e =
     (case iter_elem e of
        Inl err \<Rightarrow> Inl err
      | Inr [k, v] \<Rightarrow> Inr (k, v)
      | Inr _ \<Rightarrow> Inl ValueError)"

fun as_pairs :: "elem list \<Rightarrow> py_error + (scalar \<times> scalar) list" where
  "as_pairs [] = Inr []"
| "as_pairs (e # es) =
     (case as_pair e of
        Inl err \<Rightarrow> Inl err
      | Inr p \<Rightarrow> (case as_pairs es of Inl err \<Rightarrow> Inl err | Inr ps \<Rightarrow> Inr (p # ps)))"

definition dict_update :: "(scalar \<times> scalar) list \<Rightarrow> pyval \<Rightarrow> py_error + (scalar \<times> scalar) list" where
  "dict_update d other =
     (case other of
        Elem (EDict d2) \<Rightarrow> Inr (dict_put_all d d2)
      | _ \<Rightarrow>
         (case py_iter other of
            Inl err \<Rightarrow> Inl err
          | Inr es \<Rightarrow>
             (case as_pairs es of
                Inl err \<Rightarrow> Inl err
              | Inr pairs \<Rightarrow> Inr (dict_put_all d pairs))))"

text \<open>\<open>s.update(other)\<close> on a set: every element of the argument is added unless an equal
  one is there; an element that is a dict or a set is unhashable.\<close>

definition set_add :: "scalar list \<Rightarrow> scalar \<Rightarrow> scalar list" where
  "set_add xs x = (if norm x \<in> norm ` set xs then xs else xs @ [x])"

fun hashables :: "elem list \<Rightarrow> py_error + scalar list" where
  "hashables [] = Inr []"
| "hashables (ESc s # es) = (case hashables es of Inl err \<Rightarrow> Inl err | Inr xs \<Rightarrow> Inr (s # xs))"
| "hashables (_ # es) = Inl TypeError"

definition set_update :: "scalar list \<Rightarrow> pyval \<Rightarrow> py_error + scalar list" where
  "set_update xs other =
     (case py_iter other of
        Inl err \<Rightarrow> Inl err
      | Inr es \<Rightarrow>
         (case hashables es of
            Inl err \<Rightarrow> Inl err
          | Inr ys \<Rightarrow> Inr (foldl set_add xs ys)))"

text \<open>The two builtins whose text conversions are not modelled: \<open>int(s)\<close> on a string, which
  gives a number or raises \<open>ValueError\<close>, and \<open>str(v)\<close>.\<close>

record builtins =
  int_of_str :: "string \<Rightarrow> int option"
  str_of :: "pyval \<Rightarrow> string"

text \<open>\<open>isinstance(val, int)\<close> holds for \<open>int\<close> and \<open>bool\<close>; \<open>int(v)\<close> raises \<open>TypeError\<close> on \<open>None\<close>
  and on containers.\<close>

fun as_int :: "pyval \<Rightarrow> int option" where
  "as_int (Sc (PInt i)) = Some i"
| "as_int (Sc (PBool b)) = Some (if b then 1 else 0)"
| "as_int _ = None"

fun py_int :: "builtins \<Rightarrow> pyval \<Rightarrow> py_error + int" where
  "py_int B (Sc (PInt i)) = Inr i"
| "py_int B (Sc (PBool b)) = Inr (if b then 1 else 0)"
| "py_int B (Sc (PStr s)) = (case int_of_str B s of None \<Rightarrow> Inl ValueError | Some i \<Rightarrow> Inr i)"
| "py_int B _ = Inl TypeError"

text \<open>An entity is the dict of its fields, each with the value it holds (\<open>None\<close> when it
  is unset). \<open>_EntityMetamodel\<close> is a pydantic \<open>BaseModel\<close> with no extra fields allowed, so
  the fields are the declared ones: a name that is not a field is not in the dict, reading
  it raises \<open>AttributeError\<close> and assigning to it raises \<open>ValueError\<close> (the names of the
  methods and class variables, which can be read, are not modelled).\<close>

type_synonym entity = "string \<Rightarrow> pyval option"

text \<open>The body of the loop of \<open>update_attributes\<close> for one keyword argument. For a name
  that is not a field, \<open>__getattribute__\<close> raises \<open>AttributeError\<close>, the handler logs and calls
  \<open>__setattr__\<close>, and that raises \<open>ValueError\<close>, which nothing catches. In the branch for
  \<open>version\<close> both \<open>except\<close> clauses swallow the exception of \<open>int(...)\<close>, so the increment
  always happens.\<close>

definition update_attribute :: "builtins \<Rightarrow> entity \<Rightarrow> string \<times> pyval \<Rightarrow> py_error + entity" where
  "update_attribute B self kv =
     (let key = fst kv; new = snd kv
      in case self key of
           None \<Rightarrow> Inl ValueError
         | Some val \<Rightarrow>
            if val = Sc PNone then Inr (self(key \<mapsto> new))
            else if py_eq val new \<and> key \<noteq> ''version'' then Inr self
            else if new = Sc PNone then Inr self
            else if key = ''version'' then
              (case as_int val of
                 Some v \<Rightarrow>
                   (let v' = (case py_int B new of Inr val2 \<Rightarrow> max v val2 | Inl err \<Rightarrow> v)
                    in Inr (self(key \<mapsto> Sc (PInt (v' + 1)))))
               | None \<Rightarrow> Inr (self(key \<mapsto> Sc (PStr (str_of B val @ ''_'' @ str_of B new)))))
            else
              (case val of
                 PList xs \<Rightarrow>
                   (case new of
                      PList ys \<Rightarrow> Inr (self(key \<mapsto> PList (xs @ ys)))
                    | Elem e \<Rightarrow>
                        if \<not> py_in e xs then Inr (self(key \<mapsto> PList (xs @ [e]))) else Inr self)
               | Elem (EDict d) \<Rightarrow>
                   (case dict_update d new of
                      Inl err \<Rightarrow> Inl err
                    | Inr d' \<Rightarrow> Inr (self(key \<mapsto> PDict d')))
               | Elem (ESet s) \<Rightarrow>
                   (case set_update s new of
                      Inl err \<Rightarrow> Inl err
                    | Inr s' \<Rightarrow> Inr (self(key \<mapsto> PSet s')))
               | Elem (ESc (PStr s)) \<Rightarrow>
                   (let new_list = [ESc (PStr s)]
                    in case new of
                         PList ys \<Rightarrow> Inr (self(key \<mapsto> PList (new_list @ ys)))
                       | Elem e \<Rightarrow>
                           if \<not> py_in e new_list
                           then Inr (self(key \<mapsto> PList (new_list @ [e])))
                           else Inr (self(key \<mapsto> PList new_list)))
               | _ \<Rightarrow> Inr (self(key \<mapsto> new))))"

text \<open>\<open>update_attributes(**kwargs)\<close>: the keyword arguments in the order given, each name once.\<close>

fun update_attributes :: "builtins \<Rightarrow> entity \<Rightarrow> (string \<times> pyval) list \<Rightarrow> py_error + entity" where
  "update_attributes B self [] = Inr self"
| "update_attributes B self (kv # kwargs) =
     (case update_attribute B self kv of
        Inl err \<Rightarrow> Inl err
      | Inr self' \<Rightarrow> update_attributes B self' kwargs)"

text \<open>A dict read as a map, keys and values up to \<open>==\<close>.\<close>

definition dict_map :: "(scalar \<times> scalar) list \<Rightarrow> scalar \<Rightarrow> scalar option" where
  "dict_map d = map_of (map (\<lambda>(k, v). (norm k, norm v)) d)"

text \<open>An entity and builtins for the examples (no string is a number, \<open>str\<close> gives the empty
  string; neither is used where the version is an \<open>int\<close>).\<close>

definition example_builtins :: builtins where
  "example_builtins = \<lparr>int_of_str = (\<lambda>s. None), str_of = (\<lambda>v. [])\<rparr>"

definition example_entity :: entity where
  "example_entity =
     Map.empty(''name'' \<mapsto> Sc (PStr ''/talker''),
               ''source'' \<mapsto> Sc (PStr ''spec''),
               ''version'' \<mapsto> Sc (PInt 3),
               ''package'' \<mapsto> Sc PNone,
               ''nodes'' \<mapsto> PList [ESc (PStr ''a'')],
               ''types'' \<mapsto> PDict [(PStr ''x'', PStr ''T'')],
               ''names'' \<mapsto> PSet [PStr ''p''])"

text \<open>The one case in which \<open>update_attributes\<close> appends the same elements again on a second
  call: the argument is a non-empty list and the attribute already holds a string, or a
  non-empty list that is not equal to the argument.\<close>

definition extends_again :: "entity \<Rightarrow> string \<times> pyval \<Rightarrow> bool" where
  "extends_again self kv =
     (case snd kv of
        PList ys \<Rightarrow>
          ys \<noteq> [] \<and>
          (case self (fst kv) of
             Some (PList xs) \<Rightarrow> xs \<noteq> [] \<and> \<not> py_eq (PList xs) (PList ys)
           | Some (Elem (ESc (PStr s))) \<Rightarrow> True
           | _ \<Rightarrow> False)
      | Elem e \<Rightarrow> False)"

definition has_key :: "(scalar \<times> scalar) list \<Rightarrow> scalar \<Rightarrow> bool" where
  "has_key d k = (norm k \<in> (norm \<circ> fst) ` set d)"

text \<open>Keyword arguments for the example entity, and the entity after one call with them.\<close>

definition example_kwargs :: "(string \<times> pyval) list" where
  "example_kwargs =
     [(''source'', Sc (PStr ''ros_snapshot'')),
      (''version'', Sc (PInt 0)),
      (''types'', PDict [(PStr ''y'', PStr ''U'')])]"

definition example_entity_updated :: entity where
  "example_entity_updated =
     example_entity(''source'' \<mapsto> PList [ESc (PStr ''spec''), ESc (PStr ''ros_snapshot'')],
                    ''version'' \<mapsto> Sc (PInt 4),
                    ''types'' \<mapsto> PDict [(PStr ''x'', PStr ''T''), (PStr ''y'', PStr ''U'')])"

section \<open>snapshot/snapshot.py: reconciling a node with its specification\<close>

subsection \<open>The banks the reconciler reads\<close>

text \<open>What \<open>construct_type\<close> reads of a builder in each of the four banks: for a parameter
  the name of the Python type of its value (\<open>float\<close>, \<open>int\<close>, \<open>NoneType\<close>, ...), for an action
  and a topic the stored type, \<open>None\<close> or a string (a topic with several types is not
  modelled here); a service asks the running graph.\<close>

datatype io_data =
    ParameterData string
  | ActionData "string option"
  | TopicData "string option"
  | ServiceData

datatype BankType = PARAMETER | ACTION | TOPIC | SERVICE

text \<open>What the banks take from outside: the topic names and types the topic bank was made
  with, and the service names with their first type as \<open>get_service_names_and_types\<close>
  reports them.\<close>

record ros_graph =
  topic_types :: "(string \<times> string) list"
  service_types :: "(string \<times> string) list"

text \<open>\<open>TopicBankBuilder._find_topic_type\<close>.\<close>

definition find_topic_type :: "(string \<times> string) list \<Rightarrow> string \<Rightarrow> string" where
  "find_topic_type tt desired_topic =
     (case map_of tt desired_topic of
        Some topic_type \<Rightarrow> topic_type
      | None \<Rightarrow> ''Error: Unknown Topic Name'')"

text \<open>What the constructor of each bank's builder stores for a new name.\<close>

fun new_io_data :: "ros_graph \<Rightarrow> BankType \<Rightarrow> string \<Rightarrow> io_data" where
  "new_io_data g PARAMETER name = ParameterData ''NoneType''"
| "new_io_data g ACTION name = ActionData None"
| "new_io_data g TOPIC name = TopicData (Some (find_topic_type (topic_types g) name))"
| "new_io_data g SERVICE name = ServiceData"

text \<open>The class of a bank as far as \<open>__getitem__\<close> uses it.\<close>

definition io_bank_class :: "ros_graph \<Rightarrow> BankType \<Rightarrow> io_data bank_class" where
  "io_bank_class g bt =
     \<lparr>builder_data = new_io_data g bt,
      should_filter_out_entity = (\<lambda>name b. False),
      entity_prepare = (\<lambda>b. b)\<rparr>"

text \<open>\<open>ParameterBuilder.value_type\<close>: \<open>str(type(self.value))\<close> is \<open><class 'float'>\<close> for a float,
  from which \<open><\<close>, \<open>>\<close>, \<open>type\<close> and the quotes are removed.\<close>

definition value_type :: "string \<Rightarrow> string" where
  "value_type type_name =
     strip (replace [CHR 0x27] ''''
       (replace ''type'' ''''
         (replace ''>'' ''''
           (replace ''<'' '''' (''<class '' @ [CHR 0x27] @ type_name @ [CHR 0x27] @ ''>'')))))"

definition opt_scalar :: "string option \<Rightarrow> scalar" where
  "opt_scalar t = (case t of None \<Rightarrow> PNone | Some s \<Rightarrow> PStr s)"

text \<open>\<open>builder.construct_type\<close>; for a service the lookup of its name among the services of
  the graph raises \<open>KeyError\<close> when it is not there.\<close>

definition construct_type :: "ros_graph \<Rightarrow> io_data entity_builder \<Rightarrow> py_error + scalar" where
  "construct_type g builder =
     (case b_data builder of
        ParameterData type_name \<Rightarrow> Inr (PStr (value_type type_name))
      | ActionData t \<Rightarrow> Inr (opt_scalar t)
      | TopicData t \<Rightarrow> Inr (opt_scalar t)
      | ServiceData \<Rightarrow>
          (case map_of (service_types g) (b_name builder) of
             None \<Rightarrow> Inl KeyError
           | Some t \<Rightarrow> Inr (PStr t)))"

text \<open>\<open>io_builders[io_name].construct_type\<close>: the lookup may add a builder to the bank.\<close>

definition lookup_type :: "ros_graph \<Rightarrow> BankType \<Rightarrow> string \<Rightarrow> io_data bank
    \<Rightarrow> py_error + (scalar \<times> io_data bank)" where
  "lookup_type g bt io_name bank =
     (case bank_getitem (io_bank_class g bt) io_name bank of
        Inl e \<Rightarrow> Inl e
      | Inr (builder, bank') \<Rightarrow>
          (case construct_type g builder of
             Inl e \<Rightarrow> Inl e
           | Inr io_type \<Rightarrow> Inr (io_type, bank')))"

text \<open>The state of the snapshot that the reconciler works on: the four bank builders of
  \<open>_ros_model_builder\<close> and the flag \<open>specification_update\<close>.\<close>

record snapshot_state =
  parameter_bank :: "io_data bank"
  action_bank :: "io_data bank"
  topic_bank :: "io_data bank"
  service_bank :: "io_data bank"
  specification_update :: bool

fun get_bank_builder :: "snapshot_state \<Rightarrow> BankType \<Rightarrow> io_data bank" where
  "get_bank_builder st PARAMETER = parameter_bank st"
| "get_bank_builder st ACTION = action_bank st"
| "get_bank_builder st TOPIC = topic_bank st"
| "get_bank_builder st SERVICE = service_bank st"

fun put_bank_builder :: "BankType \<Rightarrow> io_data bank \<Rightarrow> snapshot_state \<Rightarrow> snapshot_state" where
  "put_bank_builder PARAMETER b st = st\<lparr>parameter_bank := b\<rparr>"
| "put_bank_builder ACTION b st = st\<lparr>action_bank := b\<rparr>"
| "put_bank_builder TOPIC b st = st\<lparr>topic_bank := b\<rparr>"
| "put_bank_builder SERVICE b st = st\<lparr>service_bank := b\<rparr>"

text \<open>What the reconciler reads of a \<open>NodeBuilder\<close>: its lists of names.\<close>

record node_io =
  parameter_names :: "string list"
  action_clients :: "string list"
  action_servers :: "string list"
  published_topic_names :: "string list"
  subscribed_topic_names :: "string list"
  service_names_with_remap :: "string list"

subsection \<open>Reading a category of a specification\<close>

text \<open>A \<open>NodeSpecification\<close> is an entity. Each of its six category fields is declared
  \<open>Optional[Union[List[str], Dict[str, str]]]\<close>: it holds \<open>None\<close>, a list of names, or a dict
  from tokens to types (a type the reconciler records is a string or \<open>None\<close>). The
  reconciler works on the list, or on the dict with its keys as strings.\<close>

datatype spec_types = SpecDict "(string \<times> scalar) list" | SpecList "string list"

fun str_keys :: "(scalar \<times> scalar) list \<Rightarrow> (string \<times> scalar) list option" where
  "str_keys [] = Some []"
| "str_keys ((PStr k, v) # d) = map_option (\<lambda>r. (k, v) # r) (str_keys d)"
| "str_keys (_ # d) = None"

fun str_elems :: "elem list \<Rightarrow> string list option" where
  "str_elems [] = Some []"
| "str_elems (ESc (PStr s) # xs) = map_option (\<lambda>r. s # r) (str_elems xs)"
| "str_elems (_ # xs) = None"

text \<open>Reading the field \<open>attr\<close>. A value outside the declared type (a set, a number, a dict
  with a key that is not a string, a list with an element that is not a string) is not a
  value of the field; the model answers \<open>TypeError\<close> for it.\<close>

definition spec_category :: "entity \<Rightarrow> string \<Rightarrow> py_error + spec_types option" where
  "spec_category node_spec attr =
     (case node_spec attr of
        None \<Rightarrow> Inl AttributeError
      | Some (Elem (ESc PNone)) \<Rightarrow> Inr None
      | Some (Elem (EDict d)) \<Rightarrow>
          (case str_keys d of None \<Rightarrow> Inl TypeError | Some d' \<Rightarrow> Inr (Some (SpecDict d')))
      | Some (PList xs) \<Rightarrow>
          (case str_elems xs of None \<Rightarrow> Inl TypeError | Some l \<Rightarrow> Inr (Some (SpecList l)))
      | Some _ \<Rightarrow> Inl TypeError)"

definition category_value :: "(string \<times> scalar) list \<Rightarrow> pyval" where
  "category_value d = PDict (map (\<lambda>(k, v). (PStr k, v)) d)"

fun spec_value :: "spec_types \<Rightarrow> pyval" where
  "spec_value (SpecDict d) = category_value d"
| "spec_value (SpecList l) = PList (map (\<lambda>s. ESc (PStr s)) l)"

text \<open>\<open>set(spec_types)\<close> and iterating over it: the keys of a dict, the elements of a list,
  each once. \<open>len(spec_types)\<close>. \<open>spec_types[token]\<close>: a list cannot be indexed by a string.\<close>

fun spec_keys :: "spec_types \<Rightarrow> string list" where
  "spec_keys (SpecDict d) = remdups (map fst d)"
| "spec_keys (SpecList l) = remdups l"

fun spec_len :: "spec_types \<Rightarrow> nat" where
  "spec_len (SpecDict d) = length (remdups (map fst d))"
| "spec_len (SpecList l) = length l"

fun spec_index :: "spec_types \<Rightarrow> string \<Rightarrow> py_error + scalar" where
  "spec_index (SpecDict d) token =
     (case map_of d token of None \<Rightarrow> Inl KeyError | Some t \<Rightarrow> Inr t)"
| "spec_index (SpecList l) token = Inl TypeError"

subsection \<open>Matching observed names against a category\<close>

definition unmatched_message :: "string \<Rightarrow> string \<Rightarrow> LoggerLevel \<times> string" where
  "unmatched_message node_name io_name =
     (WARNING, ''      Node '' @ node_name @ '' unmatched data '' @ io_name @ '' !'')"

text \<open>The two inner loops of \<open>_match_token_types\<close>: the first of the sorted tokens whose type
  in the specification equals the observed type.\<close>

fun first_type_match :: "spec_types \<Rightarrow> scalar \<Rightarrow> string list \<Rightarrow> py_error + string option" where
  "first_type_match spec_types io_type [] = Inr None"
| "first_type_match spec_types io_type (test # tests) =
     (case spec_index spec_types test of
        Inl e \<Rightarrow> Inl e
      | Inr t \<Rightarrow>
          if norm t = norm io_type then Inr (Some test)
          else first_type_match spec_types io_type tests)"

text \<open>The loop over the sorted observed names, on the state \<open>(available_tokens, io_is_valid,
  log, bank)\<close>.\<close>

fun match_names :: "ros_graph \<Rightarrow> BankType \<Rightarrow> string \<Rightarrow> spec_types \<Rightarrow> string list
    \<Rightarrow> string list \<times> bool \<times> log \<times> io_data bank
    \<Rightarrow> py_error + (string list \<times> bool \<times> log \<times> io_data bank)" where
  "match_names g bt node_name spec_types [] st = Inr st"
| "match_names g bt node_name spec_types (io_name # rest) (available_tokens, io_is_valid, lg, bank) =
     (case lookup_type g bt io_name bank of
        Inl e \<Rightarrow> Inl e
      | Inr (io_type, bank') \<Rightarrow>
         (let token = last (split_on CHR ''/'' io_name)
          in case (if token \<notin> set available_tokens then Inr True
                   else (case spec_index spec_types token of
                           Inl e \<Rightarrow> Inl e
                         | Inr t \<Rightarrow> Inr (norm io_type \<noteq> norm t))) of
               Inl e \<Rightarrow> Inl e
             | Inr True \<Rightarrow>
                (let potential = filter (\<lambda>ss. str_in token ss) available_tokens;
                     remaining = filter (\<lambda>ss. ss \<notin> set potential) available_tokens
                 in case first_type_match spec_types io_type (sort potential) of
                      Inl e \<Rightarrow> Inl e
                    | Inr (Some test) \<Rightarrow>
                        match_names g bt node_name spec_types rest
                          (removeAll test available_tokens, io_is_valid, lg, bank')
                    | Inr None \<Rightarrow>
                       (case first_type_match spec_types io_type (sort remaining) of
                          Inl e \<Rightarrow> Inl e
                        | Inr (Some test) \<Rightarrow>
                            match_names g bt node_name spec_types rest
                              (removeAll test available_tokens, io_is_valid, lg, bank')
                        | Inr None \<Rightarrow>
                            match_names g bt node_name spec_types rest
                              (available_tokens, False,
                               lg @ [unmatched_message node_name io_name], bank')))
             | Inr False \<Rightarrow>
                 match_names g bt node_name spec_types rest
                   (removeAll token available_tokens, io_is_valid, lg, bank')))"

text \<open>The body of that loop after the lookup of the type, on \<open>(available_tokens,
  io_is_valid, log)\<close>; \<open>match_names\<close> is the lookup followed by it (lemma \<open>match_names_step\<close>).\<close>

definition name_step :: "string \<Rightarrow> spec_types \<Rightarrow> string \<Rightarrow> scalar
    \<Rightarrow> string list \<times> bool \<times> log \<Rightarrow> py_error + (string list \<times> bool \<times> log)" where
  "name_step node_name spec_types io_name io_type s =
     (case s of (available_tokens, io_is_valid, lg) \<Rightarrow>
        (let token = last (split_on CHR ''/'' io_name)
         in case (if token \<notin> set available_tokens then Inr True
                  else (case spec_index spec_types token of
                          Inl e \<Rightarrow> Inl e
                        | Inr t \<Rightarrow> Inr (norm io_type \<noteq> norm t))) of
              Inl e \<Rightarrow> Inl e
            | Inr True \<Rightarrow>
               (let potential = filter (\<lambda>ss. str_in token ss) available_tokens;
                    remaining = filter (\<lambda>ss. ss \<notin> set potential) available_tokens
                in case first_type_match spec_types io_type (sort potential) of
                     Inl e \<Rightarrow> Inl e
                   | Inr (Some test) \<Rightarrow> Inr (removeAll test available_tokens, io_is_valid, lg)
                   | Inr None \<Rightarrow>
                      (case first_type_match spec_types io_type (sort remaining) of
                         Inl e \<Rightarrow> Inl e
                       | Inr (Some test) \<Rightarrow> Inr (removeAll test available_tokens, io_is_valid, lg)
                       | Inr None \<Rightarrow>
                           Inr (available_tokens, False,
                                lg @ [unmatched_message node_name io_name])))
            | Inr False \<Rightarrow> Inr (removeAll token available_tokens, io_is_valid, lg)))"

text \<open>\<open>list_to_io_dict\<close>: the keys of the dict, each name once (all values are \<open>None\<close>).\<close>

definition list_to_io_dict :: "string list \<Rightarrow> string list" where
  "list_to_io_dict names = remdups names"

text \<open>\<open>_match_token_types\<close>. With no specification entries (\<open>None\<close>) and no observed names the
  function runs off its end and returns \<open>None\<close>. Any exception ends the program.\<close>

definition match_token_types :: "ros_graph \<Rightarrow> BankType \<Rightarrow> string \<Rightarrow> string list \<Rightarrow> io_data bank
    \<Rightarrow> spec_types option \<Rightarrow> py_error + (scalar \<times> log \<times> io_data bank)" where
  "match_token_types g bt node_name io_names io_builders spec_types =
     (case spec_types of
        None \<Rightarrow>
          if length io_names > 0 then Inr (PBool False, [], io_builders)
          else Inr (PNone, [], io_builders)
      | Some spec \<Rightarrow>
         (case match_names g bt node_name spec (sort io_names)
                 (spec_keys spec, True, [], io_builders) of
            Inl e \<Rightarrow> Inl SystemExit
          | Inr (available_tokens, io_is_valid, lg, bank') \<Rightarrow> Inr (PBool io_is_valid, lg, bank')))"

subsection \<open>Validating a node against a validated specification\<close>

text \<open>Truth of a value, as \<open>and\<close>, \<open>assert\<close> and \<open>if not\<close> test it.\<close>

fun truthy :: "scalar \<Rightarrow> bool" where
  "truthy PNone = False"
| "truthy (PBool b) = b"
| "truthy (PInt i) = (i \<noteq> 0)"
| "truthy (PStr s) = (s \<noteq> [])"

fun pyval_truthy :: "pyval \<Rightarrow> bool" where
  "pyval_truthy (Elem (ESc s)) = truthy s"
| "pyval_truthy (Elem (EDict d)) = (d \<noteq> [])"
| "pyval_truthy (Elem (ESet xs)) = (xs \<noteq> [])"
| "pyval_truthy (PList xs) = (xs \<noteq> [])"

text \<open>One statement \<open>node_is_valid = node_is_valid and self._match_token_types(...)\<close>: the
  call is made, and before it the category is read from the specification (\<open>category\<close> is
  the outcome of that reading), only when \<open>node_is_valid\<close> is true so far.\<close>

definition and_match :: "ros_graph \<Rightarrow> string \<Rightarrow> BankType \<Rightarrow> string list
    \<Rightarrow> py_error + spec_types option
    \<Rightarrow> scalar \<times> log \<times> snapshot_state \<Rightarrow> py_error + (scalar \<times> log \<times> snapshot_state)" where
  "and_match g node_name bt names category s =
     (case s of (node_is_valid, lg, st) \<Rightarrow>
        if truthy node_is_valid then
          (case category of
             Inl e \<Rightarrow> Inl e
           | Inr spec_types \<Rightarrow>
              (case match_token_types g bt node_name (list_to_io_dict names)
                      (get_bank_builder st bt) spec_types of
                 Inl e \<Rightarrow> Inl e
               | Inr (r, lg', bank') \<Rightarrow> Inr (r, lg @ lg', put_bank_builder bt bank' st)))
        else Inr (node_is_valid, lg, st))"

definition parameter_count_message :: "string \<Rightarrow> string \<Rightarrow> nat \<Rightarrow> nat \<Rightarrow> LoggerLevel \<times> string" where
  "parameter_count_message node_name what observed specified =
     (WARNING, ''      Node '' @ node_name @ '' incorrect number of parameters to '' @ what
        @ '' ('' @ string_of_nat observed @ '' vs. '' @ string_of_nat specified @ '')!'')"

text \<open>\<open>_validate_node_builder\<close>. \<open>len(node_spec.parameters)\<close> raises \<open>TypeError\<close> when the
  field is \<open>None\<close>, and the message about the number of parameters calls \<open>.keys()\<close>, which
  a list does not have.\<close>

definition validate_node_builder :: "ros_graph \<Rightarrow> string \<Rightarrow> node_io \<Rightarrow> entity \<Rightarrow> snapshot_state
    \<Rightarrow> py_error + (scalar \<times> log \<times> snapshot_state)" where
  "validate_node_builder g node_name node_builder node_spec st =
     (case spec_category node_spec ''parameters'' of
        Inl e \<Rightarrow> Inl e
      | Inr None \<Rightarrow> Inl TypeError
      | Inr (Some parameters) \<Rightarrow>
       (let n_spec = spec_len parameters;
            n_obs = length (parameter_names node_builder);
            lg0 = [(DEBUG, ''Validating Node '' @ node_name @ '' ...'')];
            too_few = (n_spec < n_obs)
        in case (if too_few
                 then (case parameters of
                         SpecList l \<Rightarrow> Inl AttributeError
                       | SpecDict d \<Rightarrow>
                           Inr (lg0 @ [parameter_count_message node_name ''read'' n_obs n_spec,
                                       parameter_count_message node_name ''set'' n_obs n_spec]))
                 else Inr lg0) of
             Inl e \<Rightarrow> Inl e
           | Inr lg1 \<Rightarrow>
          (case and_match g node_name PARAMETER (parameter_names node_builder)
                  (Inr (Some parameters)) (PBool (\<not> too_few), lg1, st)
             of Inl e \<Rightarrow> Inl e | Inr s1 \<Rightarrow>
          (case and_match g node_name PARAMETER (parameter_names node_builder)
                  (Inr (Some parameters)) s1 of Inl e \<Rightarrow> Inl e | Inr s2 \<Rightarrow>
          (case and_match g node_name ACTION (action_clients node_builder)
                  (spec_category node_spec ''action_clients'') s2 of Inl e \<Rightarrow> Inl e | Inr s3 \<Rightarrow>
          (case and_match g node_name ACTION (action_servers node_builder)
                  (spec_category node_spec ''action_servers'') s3 of Inl e \<Rightarrow> Inl e | Inr s4 \<Rightarrow>
          (case and_match g node_name TOPIC (published_topic_names node_builder)
                  (spec_category node_spec ''published_topics'') s4 of Inl e \<Rightarrow> Inl e | Inr s5 \<Rightarrow>
          (case and_match g node_name TOPIC (subscribed_topic_names node_builder)
                  (spec_category node_spec ''subscribed_topics'') s5 of Inl e \<Rightarrow> Inl e | Inr s6 \<Rightarrow>
           and_match g node_name SERVICE (service_names_with_remap node_builder)
                  (spec_category node_spec ''services_provided'') s6))))))))"

subsection \<open>Learning an unvalidated specification\<close>

text \<open>The loop of \<open>_update_node_specification_data\<close> for a dict \<open>spec_data\<close>, on the state
  \<open>(spec_data, token_map, bank)\<close>. \<open>token_map[spec_token] += 1\<close> raises \<open>KeyError\<close> for a token
  that is a key of \<open>spec_data\<close> but not of \<open>token_map\<close>; every exception is raised again.\<close>

fun update_names :: "ros_graph \<Rightarrow> BankType \<Rightarrow> string list
    \<Rightarrow> (string \<times> scalar) list \<times> (string \<times> nat) list \<times> io_data bank
    \<Rightarrow> py_error + ((string \<times> scalar) list \<times> (string \<times> nat) list \<times> io_data bank)" where
  "update_names g bt [] s = Inr s"
| "update_names g bt (spec_name # rest) (spec_data, token_map, bank) =
     (case lookup_type g bt spec_name bank of
        Inl e \<Rightarrow> Inl e
      | Inr (spec_type, bank') \<Rightarrow>
         (let spec_token = last (split_on CHR ''/'' spec_name)
          in if spec_token \<in> set (dict_keys spec_data) then
               (case dict_get token_map spec_token of
                  None \<Rightarrow> Inl KeyError
                | Some c \<Rightarrow>
                    update_names g bt rest
                      (dict_set (spec_token @ ''_'' @ string_of_nat (c + 1)) spec_type spec_data,
                       dict_set spec_token (c + 1) token_map, bank'))
             else
               update_names g bt rest
                 (dict_set spec_token spec_type spec_data, dict_set spec_token 0 token_map, bank')))"

text \<open>\<open>_update_node_specification_data\<close>. For a list \<open>spec_data\<close> the first observed name, once
  its type is looked up, ends in \<open>spec_data[spec_token] = spec_type\<close>, which raises \<open>TypeError\<close>
  on a list; with no observed name nothing happens.\<close>

definition update_node_specification_data :: "ros_graph \<Rightarrow> BankType \<Rightarrow> spec_types
    \<Rightarrow> string list \<Rightarrow> io_data bank \<Rightarrow> py_error + (spec_types \<times> io_data bank)" where
  "update_node_specification_data g bt spec_data observed_names item_builders =
     (case spec_data of
        SpecDict d \<Rightarrow>
          (case update_names g bt (sort observed_names)
                  (d, map (\<lambda>name. (name, 0)) (dict_keys d), item_builders) of
             Inl e \<Rightarrow> Inl e
           | Inr (d', token_map, bank') \<Rightarrow> Inr (SpecDict d', bank'))
      | SpecList l \<Rightarrow>
          (case sort observed_names of
             [] \<Rightarrow> Inr (SpecList l, item_builders)
           | spec_name # rest \<Rightarrow>
               (case lookup_type g bt spec_name item_builders of
                  Inl e \<Rightarrow> Inl e
                | Inr (spec_type, bank') \<Rightarrow> Inl TypeError)))"

text \<open>One block of \<open>_update_node_specification\<close>: the category is read from the
  specification, an empty dict is taken for \<open>None\<close>, and the data is updated from the names.
  A dict that comes from the specification is the specification's own object, so its
  update shows in the specification at once; a new empty dict is only local.\<close>

definition learn_category :: "ros_graph \<Rightarrow> string \<Rightarrow> BankType \<Rightarrow> string list
    \<Rightarrow> entity \<times> snapshot_state
    \<Rightarrow> py_error + (spec_types \<times> bool \<times> entity \<times> snapshot_state)" where
  "learn_category g attr bt names s =
     (case s of (node_spec, st) \<Rightarrow>
        (case spec_category node_spec attr of
           Inl e \<Rightarrow> Inl e
         | Inr cat \<Rightarrow>
            (let shared = (cat \<noteq> None);
                 data = (case cat of None \<Rightarrow> SpecDict [] | Some d \<Rightarrow> d)
             in case update_node_specification_data g bt data names (get_bank_builder st bt) of
                  Inl e \<Rightarrow> Inl e
                | Inr (data', bank') \<Rightarrow>
                    Inr (data', shared,
                         (if shared then node_spec(attr \<mapsto> spec_value data') else node_spec),
                         put_bank_builder bt bank' st))))"

text \<open>\<open>parameters.update(set_parameters)\<close>: a list has no \<open>update\<close>; a dict is updated from a
  dict, or from a list each of whose strings has exactly two characters, the key and the
  value.\<close>

fun two_chars :: "string list \<Rightarrow> (string \<times> scalar) list option" where
  "two_chars [] = Some []"
| "two_chars ([a, b] # l) = map_option (\<lambda>r. ([a], PStr [b]) # r) (two_chars l)"
| "two_chars (_ # l) = None"

fun parameters_update :: "spec_types \<Rightarrow> spec_types \<Rightarrow> py_error + spec_types" where
  "parameters_update (SpecList l) other = Inl AttributeError"
| "parameters_update (SpecDict d) (SpecDict d2) =
     Inr (SpecDict (foldl (\<lambda>d (k, v). dict_set k v d) d d2))"
| "parameters_update (SpecDict d) (SpecList l) =
     (case two_chars l of
        None \<Rightarrow> Inl ValueError
      | Some d2 \<Rightarrow> Inr (SpecDict (foldl (\<lambda>d (k, v). dict_set k v d) d d2)))"

text \<open>\<open>_update_node_specification\<close>. The parameters are gone through twice; when the
  specification had a dict or a list, both passes work on that one object, \<open>parameters\<close>
  and \<open>set_parameters\<close> are two names of it, and \<open>parameters.update\<close> updates it with
  itself.\<close>

definition update_node_specification :: "ros_graph \<Rightarrow> builtins \<Rightarrow> entity \<Rightarrow> node_io \<Rightarrow> snapshot_state
    \<Rightarrow> py_error + (entity \<times> log \<times> snapshot_state)" where
  "update_node_specification g B node_spec node_builder st0 =
     (case node_spec ''validated'' of
        None \<Rightarrow> Inl AttributeError
      | Some validated \<Rightarrow>
        if pyval_truthy validated then Inl AssertionError
        else
     (let st = st0\<lparr>specification_update := True\<rparr>;
          lg = [(INFO, ''Updating node specification'')]
      in case learn_category g ''parameters'' PARAMETER (parameter_names node_builder)
                (node_spec, st) of Inl e \<Rightarrow> Inl e
         | Inr (parameters1, shared, node_spec1, st1) \<Rightarrow>
        (case learn_category g ''parameters'' PARAMETER (parameter_names node_builder)
                (node_spec1, st1) of Inl e \<Rightarrow> Inl e
         | Inr (set_parameters, shared2, node_spec2, st2) \<Rightarrow>
        (case parameters_update (if shared then set_parameters else parameters1) set_parameters
           of Inl e \<Rightarrow> Inl e
         | Inr parameters \<Rightarrow>
        (case learn_category g ''action_clients'' ACTION (action_clients node_builder)
                (node_spec2, st2) of Inl e \<Rightarrow> Inl e
         | Inr (action_clients', sh3, node_spec3, st3) \<Rightarrow>
        (case learn_category g ''action_servers'' ACTION (action_servers node_builder)
                (node_spec3, st3) of Inl e \<Rightarrow> Inl e
         | Inr (action_servers', sh4, node_spec4, st4) \<Rightarrow>
        (case learn_category g ''published_topics'' TOPIC (published_topic_names node_builder)
                (node_spec4, st4) of Inl e \<Rightarrow> Inl e
         | Inr (published_topics', sh5, node_spec5, st5) \<Rightarrow>
        (case learn_category g ''subscribed_topics'' TOPIC (subscribed_topic_names node_builder)
                (node_spec5, st5) of Inl e \<Rightarrow> Inl e
         | Inr (subscribed_topics', sh6, node_spec6, st6) \<Rightarrow>
        (case learn_category g ''services_provided'' SERVICE (service_names_with_remap node_builder)
                (node_spec6, st6) of Inl e \<Rightarrow> Inl e
         | Inr (services_provided', sh7, node_spec7, st7) \<Rightarrow>
        (case update_attributes B node_spec7
                [(''validated'', Sc (PBool True)),
                 (''source'', Sc (PStr ''ros_snapshot'')),
                 (''parameters'', spec_value parameters),
                 (''action_clients'', spec_value action_clients'),
                 (''action_servers'', spec_value action_servers'),
                 (''published_topics'', spec_value published_topics'),
                 (''subscribed_topics'', spec_value subscribed_topics'),
                 (''services_provided'', spec_value services_provided'),
                 (''version'', Sc (PInt 0))] of
           Inl e \<Rightarrow> Inl e
         | Inr node_spec' \<Rightarrow>
            (case node_spec' ''validated'' of
               None \<Rightarrow> Inl AttributeError
             | Some v \<Rightarrow>
                 if pyval_truthy v then Inr (node_spec', lg, st7)
                 else Inl AssertionError)))))))))))"

text \<open>The second end-to-end scenario: node \<open>/bar\<close> with the one parameter \<open>/bar/thresh\<close>, whose
  value is a float, and a new, unvalidated specification with no category set.\<close>

definition scenario_graph :: ros_graph where
  "scenario_graph = \<lparr>topic_types = [], service_types = []\<rparr>"

definition scenario_state :: snapshot_state where
  "scenario_state =
     \<lparr>parameter_bank =
        Map.empty(''/bar/thresh'' \<mapsto>
          (EntityBuilder_init ''/bar/thresh'' (ParameterData ''float''))\<lparr>b_name := ''thresh''\<rparr>),
      action_bank = Map.empty, topic_bank = Map.empty, service_bank = Map.empty,
      specification_update = False\<rparr>"

definition scenario_node :: node_io where
  "scenario_node =
     \<lparr>parameter_names = [''/bar/thresh''], action_clients = [], action_servers = [],
      published_topic_names = [], subscribed_topic_names = [], service_names_with_remap = []\<rparr>"

definition scenario_spec :: entity where
  "scenario_spec =
     Map.empty(''name'' \<mapsto> Sc (PStr ''pkg/bar''),
               ''source'' \<mapsto> Sc PNone,
               ''version'' \<mapsto> Sc (PInt 0),
               ''validated'' \<mapsto> Sc (PBool False),
               ''file_path'' \<mapsto> Sc PNone,
               ''package'' \<mapsto> Sc PNone,
               ''parameters'' \<mapsto> Sc PNone,
               ''action_clients'' \<mapsto> Sc PNone,
               ''action_servers'' \<mapsto> Sc PNone,
               ''published_topics'' \<mapsto> Sc PNone,
               ''subscribed_topics'' \<mapsto> Sc PNone,
               ''services_provided'' \<mapsto> Sc PNone)"

subsection \<open>Notions for the statements about validation\<close>

text \<open>What a bank answers for every name, whether the builder is stored or would be made
  by the lookup.\<close>

definition bank_types :: "ros_graph \<Rightarrow> BankType \<Rightarrow> io_data bank \<Rightarrow> string \<Rightarrow> py_error + scalar" where
  "bank_types g bt bank io_name =
     (case lookup_type g bt io_name bank of Inl e \<Rightarrow> Inl e | Inr (t, bank') \<Rightarrow> Inr t)"

definition same_types :: "ros_graph \<Rightarrow> snapshot_state \<Rightarrow> snapshot_state \<Rightarrow> bool" where
  "same_types g st st' \<longleftrightarrow>
     (\<forall>bt. bank_types g bt (get_bank_builder st bt) = bank_types g bt (get_bank_builder st' bt))"

text \<open>A category is a bank, the observed names and the dict of the specification. It
  matches in full when \<open>_match_token_types\<close> returns \<open>True\<close> for it; its log is what that call
  writes.\<close>

type_synonym category = "BankType \<times> string list \<times> (string \<times> scalar) list"

definition category_matches :: "ros_graph \<Rightarrow> string \<Rightarrow> snapshot_state \<Rightarrow> category \<Rightarrow> bool" where
  "category_matches g node_name st c =
     (case c of (bt, names, spec) \<Rightarrow>
        (case match_token_types g bt node_name (list_to_io_dict names)
                (get_bank_builder st bt) (Some (SpecDict spec)) of
           Inl e \<Rightarrow> False
         | Inr (r, lg, bank') \<Rightarrow> r = PBool True))"

definition category_log :: "ros_graph \<Rightarrow> string \<Rightarrow> snapshot_state \<Rightarrow> category \<Rightarrow> log" where
  "category_log g node_name st c =
     (case c of (bt, names, spec) \<Rightarrow>
        (case match_token_types g bt node_name (list_to_io_dict names)
                (get_bank_builder st bt) (Some (SpecDict spec)) of
           Inl e \<Rightarrow> []
         | Inr (r, lg, bank') \<Rightarrow> lg))"

text \<open>A category ends the program when an exception is raised while it is matched (a
  service that the graph does not know, for one).\<close>

definition category_exits :: "ros_graph \<Rightarrow> string \<Rightarrow> snapshot_state \<Rightarrow> category \<Rightarrow> bool" where
  "category_exits g node_name st c =
     (case c of (bt, names, spec) \<Rightarrow>
        (case match_token_types g bt node_name (list_to_io_dict names)
                (get_bank_builder st bt) (Some (SpecDict spec)) of
           Inl e \<Rightarrow> True
         | Inr (r, lg, bank') \<Rightarrow> False))"

text \<open>Going through a list of categories up to the first that does not match: whether one
  of them ends the program, and the log of the one that does not match; nothing for the
  ones after it.\<close>

fun categories_exit :: "ros_graph \<Rightarrow> string \<Rightarrow> snapshot_state \<Rightarrow> category list \<Rightarrow> bool" where
  "categories_exit g node_name st [] = False"
| "categories_exit g node_name st (c # cs) =
     (category_exits g node_name st c
      \<or> (category_matches g node_name st c \<and> categories_exit g node_name st cs))"


fun first_failure_log :: "ros_graph \<Rightarrow> string \<Rightarrow> snapshot_state \<Rightarrow> category list \<Rightarrow> log" where
  "first_failure_log g node_name st [] = []"
| "first_failure_log g node_name st (c # cs) =
     (if category_matches g node_name st c then first_failure_log g node_name st cs
      else category_log g node_name st c)"

text \<open>The seven statements \<open>node_is_valid = node_is_valid and ...\<close> of
  \<open>_validate_node_builder\<close> in their order, for categories that are dicts.\<close>

fun and_matches :: "ros_graph \<Rightarrow> string \<Rightarrow> category list \<Rightarrow> scalar \<times> log \<times> snapshot_state
    \<Rightarrow> py_error + (scalar \<times> log \<times> snapshot_state)" where
  "and_matches g node_name [] s = Inr s"
| "and_matches g node_name ((bt, names, spec) # cs) s =
     (case and_match g node_name bt names (Inr (Some (SpecDict spec))) s of
        Inl e \<Rightarrow> Inl e
      | Inr s' \<Rightarrow> and_matches g node_name cs s')"

definition node_categories :: "node_io \<Rightarrow> (string \<times> scalar) list \<Rightarrow> (string \<times> scalar) list
    \<Rightarrow> (string \<times> scalar) list \<Rightarrow> (string \<times> scalar) list \<Rightarrow> (string \<times> scalar) list
    \<Rightarrow> (string \<times> scalar) list \<Rightarrow> category list" where
  "node_categories nb params acs ass pubs subs srvs =
     [(PARAMETER, parameter_names nb, params),
      (PARAMETER, parameter_names nb, params),
      (ACTION, action_clients nb, acs),
      (ACTION, action_servers nb, ass),
      (TOPIC, published_topic_names nb, pubs),
      (TOPIC, subscribed_topic_names nb, subs),
      (SERVICE, service_names_with_remap nb, srvs)]"

definition validating_log :: "string \<Rightarrow> node_io \<Rightarrow> (string \<times> scalar) list \<Rightarrow> log" where
  "validating_log node_name nb params =
     (let n_spec = length (remdups (map fst params)); n_obs = length (parameter_names nb)
      in (DEBUG, ''Validating Node '' @ node_name @ '' ...'')
         # (if n_spec < n_obs
            then [parameter_count_message node_name ''read'' n_obs n_spec,
                  parameter_count_message node_name ''set'' n_obs n_spec]
            else []))"

text \<open>The specification at the end of the scenario.\<close>

definition scenario_spec_learned :: entity where
  "scenario_spec_learned =
     scenario_spec(''validated'' \<mapsto> Sc (PBool True),
                   ''source'' \<mapsto> Sc (PStr ''ros_snapshot''),
                   ''parameters'' \<mapsto> PDict [(PStr ''thresh'', PStr ''class float'')],
                   ''action_clients'' \<mapsto> PDict [],
                   ''action_servers'' \<mapsto> PDict [],
                   ''published_topics'' \<mapsto> PDict [],
                   ''subscribed_topics'' \<mapsto> PDict [],
                   ''services_provided'' \<mapsto> PDict [],
                   ''version'' \<mapsto> Sc (PInt 1))"

text \<open>A node \<open>/foo\<close> that publishes \<open>/chat_out\<close> and subscribes to \<open>/chat_in\<close>, both known to the
  topic bank, with two validated specifications: one whose categories are all empty
  dicts, and one that names both topics with their type.\<close>

definition chatter_graph :: ros_graph where
  "chatter_graph =
     \<lparr>topic_types = [(''/chat_out'', ''std_msgs/msg/String''),
                      (''/chat_in'', ''std_msgs/msg/String'')],
      service_types = []\<rparr>"

definition chatter_state :: snapshot_state where
  "chatter_state =
     \<lparr>parameter_bank = Map.empty, action_bank = Map.empty,
      topic_bank =
        Map.empty(''/chat_out'' \<mapsto>
                    EntityBuilder_init ''/chat_out'' (TopicData (Some ''std_msgs/msg/String'')),
                  ''/chat_in'' \<mapsto>
                    EntityBuilder_init ''/chat_in'' (TopicData (Some ''std_msgs/msg/String''))),
      service_bank = Map.empty,
      specification_update = False\<rparr>"

definition chatter_node :: node_io where
  "chatter_node =
     \<lparr>parameter_names = [], action_clients = [], action_servers = [],
      published_topic_names = [''/chat_out''], subscribed_topic_names = [''/chat_in''],
      service_names_with_remap = []\<rparr>"

definition chatter_spec_empty :: entity where
  "chatter_spec_empty =
     Map.empty(''name'' \<mapsto> Sc (PStr ''pkg/foo''),
               ''source'' \<mapsto> Sc PNone,
               ''version'' \<mapsto> Sc (PInt 1),
               ''validated'' \<mapsto> Sc (PBool True),
               ''file_path'' \<mapsto> Sc PNone,
               ''package'' \<mapsto> Sc PNone,
               ''parameters'' \<mapsto> PDict [],
               ''action_clients'' \<mapsto> PDict [],
               ''action_servers'' \<mapsto> PDict [],
               ''published_topics'' \<mapsto> PDict [],
               ''subscribed_topics'' \<mapsto> PDict [],
               ''services_provided'' \<mapsto> PDict [])"

definition chatter_spec :: entity where
  "chatter_spec =
     chatter_spec_empty
       (''published_topics'' \<mapsto> PDict [(PStr ''chat_out'', PStr ''std_msgs/msg/String'')],
        ''subscribed_topics'' \<mapsto> PDict [(PStr ''chat_in'', PStr ''std_msgs/msg/String'')])"

text \<open>What a match in full means for a category: every observed name has a token of the
  specification of its own, whose type in the specification equals the type the bank
  gives for the name.\<close>

definition typed_assignment :: "ros_graph \<Rightarrow> snapshot_state \<Rightarrow> category \<Rightarrow> (string \<Rightarrow> string) \<Rightarrow> bool" where
  "typed_assignment g st c f =
     (case c of (bt, names, spec) \<Rightarrow>
        inj_on f (set names)
        \<and> (\<forall>n \<in> set names.
              \<exists>t ty. map_of spec (f n) = Some t
                   \<and> bank_types g bt (get_bank_builder st bt) n = Inr ty
                   \<and> norm t = norm ty))"

section \<open>Theorems on the filters\<close>

lemma filter_inv_initial: "filter_inv initial_world"
  unfolding filter_inv_def
proof (intro conjI allI impI)
  fix c show "class_attr c_BASE_EXCLUSIONS initial_world c = Some (base_addr c)"
    by (cases c) (simp_all add: class_attr_def initial_world_def base_addr_def no_attrs_def)
next
  show "c_INSTANCE (classes initial_world Filter) = None"
    by (simp add: initial_world_def)
next
  fix c i assume "c_INSTANCE (classes initial_world c) = Some i"
  then show "f_base_exclusions i = ClassObj (base_addr c)"
    by (cases c) (simp_all add: initial_world_def no_attrs_def)
qed

lemma class_attr_base_upd [simp]:
  "class_attr c_BASE_EXCLUSIONS (w\<lparr>classes := (classes w)(c := (classes w c)\<lparr>c_INSTANCE := i\<rparr>)\<rparr>) c'
     = class_attr c_BASE_EXCLUSIONS w c'"
  "class_attr c_BASE_EXCLUSIONS (w\<lparr>classes := (classes w)(c := (classes w c)\<lparr>c_FILTER_OUT_DEBUG := d\<rparr>)\<rparr>) c'
     = class_attr c_BASE_EXCLUSIONS w c'"
  "class_attr c_BASE_EXCLUSIONS (w\<lparr>classes := (classes w)(c := (classes w c)\<lparr>c_FILTER_OUT_TF := d\<rparr>)\<rparr>) c'
     = class_attr c_BASE_EXCLUSIONS w c'"
  "class_attr c_BASE_EXCLUSIONS (w\<lparr>heap := h\<rparr>) c' = class_attr c_BASE_EXCLUSIONS w c'"
  by (auto simp: class_attr_def split: option.splits)

lemma get_filter_inv:
  assumes "filter_inv w" "get_filter c w = Inr (inst, w')" "c \<noteq> Filter"
  shows "filter_inv w' \<and> heap w' = heap w
         \<and> c_INSTANCE (classes w' c) = Some inst
         \<and> f_base_exclusions inst = ClassObj (base_addr c)"
proof (cases "c_INSTANCE (classes w c)")
  case (Some i)
  then have "class_attr c_INSTANCE w c = Some i" by (simp add: class_attr_def)
  with assms(2) have "inst = i" "w' = w" by (simp_all add: get_filter_def)
  then show ?thesis using assms(1) Some by (simp add: filter_inv_def)
next
  case None
  then have r: "class_attr c_INSTANCE w c = None"
    using assms(1) by (simp add: class_attr_def filter_inv_def)
  from assms(2) r obtain fd ft where
    i: "Filter_init w c fd ft = Inr inst"
    and w': "w' = w\<lparr>classes := (classes w)(c := (classes w c)\<lparr>c_INSTANCE := Some inst\<rparr>)\<rparr>"
    by (auto simp: get_filter_def split: option.splits sum.splits)
  have bc: "class_attr c_BASE_EXCLUSIONS w c = Some (base_addr c)"
    using assms(1) by (simp add: filter_inv_def)
  from i bc have b: "f_base_exclusions inst = ClassObj (base_addr c)"
    by (auto simp: Filter_init_def split: option.splits if_splits)
  have "filter_inv w'"
    using assms(1,3) b unfolding filter_inv_def w' by simp
  then show ?thesis using b by (simp add: w')
qed

lemma filter_step_inv:
  assumes "filter_inv w" "x \<noteq> GetFilter Filter"
  shows "filter_inv (filter_step x w) \<and> heap_grows w (filter_step x w)"
proof (cases x)
  case (GetFilter c)
  then have c: "c \<noteq> Filter" using assms(2) by simp
  show ?thesis
  proof (cases "get_filter c w")
    case (Inl e)
    then show ?thesis using GetFilter assms(1) by (simp add: heap_grows_def)
  next
    case (Inr p)
    obtain inst w' where p: "p = (inst, w')" by (cases p)
    from get_filter_inv[OF assms(1) Inr[unfolded p] c] show ?thesis
      using GetFilter Inr p by (simp add: heap_grows_def)
  qed
next
  case (AddBase c item)
  show ?thesis
  proof (cases "BASE_EXCLUSIONS_add c item w")
    case (Inl e)
    then show ?thesis using AddBase assms(1) by (simp add: heap_grows_def)
  next
    case (Inr w')
    then obtain a xs where "w' = w\<lparr>heap := (heap w)(a := SetObj (if item \<in> set xs then xs else xs @ [item]))\<rparr>"
      "heap w a = SetObj xs"
      by (auto simp: BASE_EXCLUSIONS_add_def split: option.splits exclusions.splits)
    then show ?thesis using AddBase Inr assms(1)
      by (simp add: filter_inv_def heap_grows_def)
  qed
next
  case (SetDebug c v)
  then show ?thesis using assms(1)
    by (simp add: set_FILTER_OUT_DEBUG_def filter_inv_def heap_grows_def)
next
  case (SetTF c v)
  then show ?thesis using assms(1)
    by (simp add: set_FILTER_OUT_TF_def filter_inv_def heap_grows_def)
qed

lemma filter_run_inv:
  "filter_inv w \<Longrightarrow> GetFilter Filter \<notin> set t \<Longrightarrow>
   filter_inv (filter_run t w) \<and> heap_grows w (filter_run t w)"
proof (induction t arbitrary: w)
  case Nil
  then show ?case by (simp add: heap_grows_def)
next
  case (Cons x t)
  from Cons.prems have s: "filter_inv (filter_step x w)" "heap_grows w (filter_step x w)"
    using filter_step_inv[of w x] by auto
  from Cons.IH[OF s(1)] Cons.prems(2) s(2) show ?case
    by (simp add: heap_grows_def)
qed

lemma BASE_EXCLUSIONS_add_inv:
  assumes "filter_inv w" "BASE_EXCLUSIONS_add c item w = Inr w'"
  shows "filter_inv w' \<and> contains (heap w' (base_addr c)) item"
proof -
  have bc: "class_attr c_BASE_EXCLUSIONS w c = Some (base_addr c)"
    using assms(1) by (simp add: filter_inv_def)
  with assms(2) obtain xs where
    "w' = w\<lparr>heap := (heap w)(base_addr c := SetObj (if item \<in> set xs then xs else xs @ [item]))\<rparr>"
    by (auto simp: BASE_EXCLUSIONS_add_def split: exclusions.splits)
  then show ?thesis using assms(1) by (simp add: filter_inv_def)
qed

lemma own_instance_step:
  assumes "c_INSTANCE (classes w c) = Some i"
  shows "c_INSTANCE (classes (filter_step x w) c) = Some i"
proof (cases x)
  case (GetFilter c')
  show ?thesis
  proof (cases "c' = c")
    case True
    then have "get_filter c' w = Inr (i, w)" using assms by (simp add: get_filter_def class_attr_def)
    then show ?thesis using GetFilter assms by simp
  next
    case False
    then show ?thesis using GetFilter assms
      by (auto simp: get_filter_def split: option.splits sum.splits)
  qed
next
  case (AddBase c' item)
  then show ?thesis using assms
    by (auto simp: BASE_EXCLUSIONS_add_def split: option.splits sum.splits exclusions.splits)
next
  case (SetDebug c' v)
  then show ?thesis using assms by (auto simp: set_FILTER_OUT_DEBUG_def)
next
  case (SetTF c' v)
  then show ?thesis using assms by (auto simp: set_FILTER_OUT_TF_def)
qed

lemma own_instance_run:
  "c_INSTANCE (classes w c) = Some i \<Longrightarrow> c_INSTANCE (classes (filter_run t w) c) = Some i"
  by (induction t arbitrary: w) (simp_all add: own_instance_step)

text \<open>Claim C10. A filter singleton's \<open>_base_exclusions\<close> is the very container its class
  attribute \<open>BASE_EXCLUSIONS\<close> points to: an item added to a subclass's \<open>BASE_EXCLUSIONS\<close>
  (the add succeeding, so the container is a set), before or after the singleton's first use
  and whatever is called in between, is filtered out by that subclass's singleton. The
  singleton itself, and with it the choice of debug and transform containers made from the
  flags at its creation, stays the same whatever is called afterwards. (The base class
  \<open>Filter\<close> is never asked for a singleton, as in the program.)\<close>

theorem filter_base_exclusions_by_reference:
  assumes "c \<noteq> Filter"
    and "GetFilter Filter \<notin> set t1" and "GetFilter Filter \<notin> set t2"
    and "BASE_EXCLUSIONS_add c item (filter_run t1 initial_world) = Inr w2"
    and "get_filter c (filter_run t2 w2) = Inr (inst, w4)"
  shows "should_filter_out w4 inst item
       \<and> get_filter c (filter_run t3 w4) = Inr (inst, filter_run t3 w4)"
proof -
  have i1: "filter_inv (filter_run t1 initial_world)"
    using filter_run_inv[OF filter_inv_initial assms(2)] by simp
  from BASE_EXCLUSIONS_add_inv[OF i1 assms(4)] have
    i2: "filter_inv w2" and a: "contains (heap w2 (base_addr c)) item"
    by auto
  from filter_run_inv[OF i2 assms(3)] have
    i3: "filter_inv (filter_run t2 w2)" and g: "heap_grows w2 (filter_run t2 w2)" by auto
  from get_filter_inv[OF i3 assms(5,1)] have
    h: "heap w4 = heap (filter_run t2 w2)" and own: "c_INSTANCE (classes w4 c) = Some inst"
    and b: "f_base_exclusions inst = ClassObj (base_addr c)"
    by auto
  have "contains (heap w4 (base_addr c)) item"
    using g a h by (simp add: heap_grows_def)
  with b have 1: "should_filter_out w4 inst item"
    by (simp add: should_filter_out_def deref_def)
  have "c_INSTANCE (classes (filter_run t3 w4) c) = Some inst"
    using own by (rule own_instance_run)
  then have 2: "get_filter c (filter_run t3 w4) = Inr (inst, filter_run t3 w4)"
    by (simp add: get_filter_def class_attr_def)
  from 1 2 show ?thesis by simp
qed

theorem filter_base_exclusions_by_reference_witness:
  "BASE_EXCLUSIONS_add NodeFilter ''/ros_snapshot'' (filter_run [GetFilter NodeFilter] initial_world)
     = Inr world_after_add
   \<and> get_filter NodeFilter (filter_run [SetDebug Filter True] world_after_add)
     = Inr (node_filter_singleton, filter_run [SetDebug Filter True] world_after_add)
   \<and> should_filter_out (filter_run [SetDebug Filter True] world_after_add)
        node_filter_singleton ''/ros_snapshot''
   \<and> get_filter NodeFilter
        (filter_run [SetTF Filter True] (filter_run [SetDebug Filter True] world_after_add))
     = Inr (node_filter_singleton,
            filter_run [SetTF Filter True] (filter_run [SetDebug Filter True] world_after_add))
   \<and> \<not> should_filter_out (filter_run [SetDebug Filter True] world_after_add)
        node_filter_singleton ''/rosout''"
proof -
  have h1: "NodeFilter \<noteq> Filter" by simp
  have h2: "GetFilter Filter \<notin> set [GetFilter NodeFilter]" by simp
  have h3: "GetFilter Filter \<notin> set [SetDebug Filter True]" by simp
  have h4: "BASE_EXCLUSIONS_add NodeFilter ''/ros_snapshot''
      (filter_run [GetFilter NodeFilter] initial_world) = Inr world_after_add"
    by (simp add: get_filter_def class_attr_def initial_world_def no_attrs_def Filter_init_def
        BASE_EXCLUSIONS_add_def initial_heap_def world_after_add_def node_filter_singleton_def)
  have h5: "get_filter NodeFilter (filter_run [SetDebug Filter True] world_after_add)
     = Inr (node_filter_singleton, filter_run [SetDebug Filter True] world_after_add)"
    by (simp add: get_filter_def class_attr_def world_after_add_def set_FILTER_OUT_DEBUG_def)
  have h6: "\<not> should_filter_out (filter_run [SetDebug Filter True] world_after_add)
        node_filter_singleton ''/rosout''"
    by (simp add: should_filter_out_def deref_def world_after_add_def set_FILTER_OUT_DEBUG_def
        node_filter_singleton_def initial_heap_def)
  from filter_base_exclusions_by_reference[OF h1 h2 h3 h4 h5, of "[SetTF Filter True]"] h4 h5 h6
  show ?thesis by simp
qed

section \<open>Theorems on the bank builders\<close>

lemma create_entity_builder_name [simp]: "b_name (create_entity_builder cls name) = name"
  by (simp add: create_entity_builder_def EntityBuilder_init_def Let_def)

lemma bank_getitem_absent:
  assumes "bank name = None"
  shows "bank_getitem cls name bank
           = Inr (create_entity_builder cls name, bank(name \<mapsto> create_entity_builder cls name))"
  using assms by (simp add: bank_getitem_def add_entity_builder_def)

lemma bank_getitem_total:
  "\<exists>b bank'. bank_getitem cls name bank = Inr (b, bank') \<and> bank' name = Some b"
proof (cases "bank name")
  case None
  then show ?thesis by (simp add: bank_getitem_absent)
next
  case (Some b)
  then show ?thesis by (simp add: bank_getitem_def)
qed

lemma bank_prepare_filtered:
  assumes "bank name = Some b0" "should_filter_out_entity cls name b0"
  shows "bank_prepare cls bank name = None"
  using assms by (simp add: bank_prepare_def gather_filtered_names_to_entity_builders_def)

text \<open>Claim C9. A lookup never fails and returns a builder stored under the name; for an
  absent name the builder is a fresh one made by the class for that name, stored under it.
  A name that \<open>prepare\<close> has filtered out is absent afterwards, so the next lookup of it
  puts a fresh builder for it back into the bank.\<close>

theorem bank_lookup_recreates_filtered:
  "(\<exists>b bank'. bank_getitem cls name bank = Inr (b, bank') \<and> bank' name = Some b)
   \<and> (bank name = None \<longrightarrow>
        bank_getitem cls name bank
          = Inr (create_entity_builder cls name, bank(name \<mapsto> create_entity_builder cls name)))
   \<and> (bank name = Some b0 \<and> should_filter_out_entity cls name b0 \<longrightarrow>
        bank_prepare cls bank name = None
        \<and> bank_getitem cls name (bank_prepare cls bank)
          = Inr (create_entity_builder cls name,
                 (bank_prepare cls bank)(name \<mapsto> create_entity_builder cls name)))"
  using bank_getitem_total[of cls name bank] bank_getitem_absent[of bank name cls]
    bank_prepare_filtered[of bank name b0 cls]
    bank_getitem_absent[of "bank_prepare cls bank" name cls]
  by blast

theorem bank_lookup_recreates_filtered_witness:
  "example_node_bank ''/rosout''
      = Some (create_entity_builder example_node_bank_class ''/rosout'')
   \<and> should_filter_out_entity example_node_bank_class ''/rosout''
        (create_entity_builder example_node_bank_class ''/rosout'')
   \<and> bank_prepare example_node_bank_class example_node_bank ''/rosout'' = None
   \<and> bank_getitem example_node_bank_class ''/rosout''
        (bank_prepare example_node_bank_class example_node_bank)
      = Inr (create_entity_builder example_node_bank_class ''/rosout'',
             (bank_prepare example_node_bank_class example_node_bank)
               (''/rosout'' \<mapsto> create_entity_builder example_node_bank_class ''/rosout''))
   \<and> b_name_suffix (create_entity_builder example_node_bank_class ''/rosout'') = ''/rosout''"
proof -
  have h1: "example_node_bank ''/rosout''
      = Some (create_entity_builder example_node_bank_class ''/rosout'')"
    by (simp add: example_node_bank_def)
  have h2: "should_filter_out_entity example_node_bank_class ''/rosout''
        (create_entity_builder example_node_bank_class ''/rosout'')"
    by (simp add: example_node_bank_class_def)
  have h3: "b_name_suffix (create_entity_builder example_node_bank_class ''/rosout'') = ''/rosout''"
    by (simp add: create_entity_builder_def EntityBuilder_init_def)
  from bank_lookup_recreates_filtered[of example_node_bank_class "''/rosout''" example_node_bank
      "create_entity_builder example_node_bank_class ''/rosout''"] h1 h2 h3
  show ?thesis by blast
qed

section \<open>Theorems on the action builder\<close>

lemma set_TOPIC_SUFFIXES:
  "set TOPIC_SUFFIXES = {''/goal'', ''/cancel'', ''/feedback'', ''/result'', ''/status''}"
  by (auto simp: TOPIC_SUFFIXES_def CLIENT_PUBLISHED_TOPIC_SUFFIXES_def
      SERVER_PUBLISHED_TOPIC_SUFFIXES_def)

lemma NUM_TOPIC_SUFFIXES_5: "NUM_TOPIC_SUFFIXES = 5"
  by (simp add: NUM_TOPIC_SUFFIXES_def TOPIC_SUFFIXES_def CLIENT_PUBLISHED_TOPIC_SUFFIXES_def
      SERVER_PUBLISHED_TOPIC_SUFFIXES_def)

lemma required_suffixes_iff:
  "validate_topic_builders_have_required_suffixes tbs \<longleftrightarrow>
     card (set (map b_name_suffix tbs)) \<ge> 3 \<and> set (map b_name_suffix tbs) \<subseteq> set TOPIC_SUFFIXES"
  by (auto simp: validate_topic_builders_have_required_suffixes_def Let_def list_all_iff
      length_remdups_card_conv)

lemma endswith_nonempty: "endswith s (x # xs) \<Longrightarrow> s \<noteq> []"
  by (auto simp: endswith_def)

lemma core_types_iff:
  "validate_core_topic_builders_have_required_types pairs d = Inr True \<longleftrightarrow>
     (\<forall>(suf, tok) \<in> set pairs.
        \<exists>tb ty. dict_get d suf = Some tb \<and> t_construct_type (b_data tb) = TypeStr ty
           \<and> endswith ty (''Action'' @ tok))"
proof (induction pairs)
  case Nil
  then show ?case by simp
next
  case (Cons p pairs)
  obtain suf tok where p: "p = (suf, tok)" by (cases p)
  show ?case
  proof (cases "dict_get d suf")
    case None
    then show ?thesis using p by simp
  next
    case (Some tb)
    show ?thesis
    proof (cases "t_construct_type (b_data tb)")
      case NoType
      then show ?thesis using p Some by simp
    next
      case (TypeStr ty)
      then show ?thesis using p Some Cons.IH endswith_nonempty[of ty "CHR ''A''" "''ction'' @ tok"]
        by auto
    next
      case (TypeSeq tys)
      then show ?thesis using p Some by simp
    qed
  qed
qed

text \<open>Claim C6. \<open>validate_action_topic_builders\<close> returns \<open>True\<close> exactly when the topic
  builders of the action show at least three distinct name suffixes, all of them among
  \<open>/goal\<close>, \<open>/cancel\<close>, \<open>/feedback\<close>, \<open>/result\<close>, \<open>/status\<close>, and each of \<open>/feedback\<close>, \<open>/goal\<close>,
  \<open>/result\<close> has a topic builder whose type is a string ending in \<open>ActionFeedback\<close>,
  \<open>ActionGoal\<close>, \<open>ActionResult\<close>; so an action with at most two suffixes is not accepted.\<close>

theorem validate_action_topic_builders_iff:
  "(validate_action_topic_builders self = Inr True \<longleftrightarrow>
      card (set (map (b_name_suffix \<circ> snd) (a_topic_names_to_builders (b_data self)))) \<ge> 3
    \<and> set (map (b_name_suffix \<circ> snd) (a_topic_names_to_builders (b_data self)))
        \<subseteq> {''/goal'', ''/cancel'', ''/feedback'', ''/result'', ''/status''}
    \<and> (\<forall>(suf, tok) \<in> {(''/feedback'', ''Feedback''), (''/goal'', ''Goal''), (''/result'', ''Result'')}.
          \<exists>tb ty. dict_get (a_topic_name_suffixes_to_builders (b_data self)) suf = Some tb
            \<and> t_construct_type (b_data tb) = TypeStr ty
            \<and> endswith ty (''Action'' @ tok)))
   \<and> (card (set (map (b_name_suffix \<circ> snd) (a_topic_names_to_builders (b_data self)))) \<le> 2
        \<longrightarrow> validate_action_topic_builders self \<noteq> Inr True)"
proof -
  let ?d = "a_topic_name_suffixes_to_builders (b_data self)"
  let ?tbs = "map snd (a_topic_names_to_builders (b_data self))"
  have c: "validate_core_topic_builders_have_required_types CORE_TOPIC_SUFFIXES_TO_TYPE_TOKENS ?d
             = Inr True \<longleftrightarrow>
           (\<forall>(suf, tok) \<in> {(''/feedback'', ''Feedback''), (''/goal'', ''Goal''), (''/result'', ''Result'')}.
              \<exists>tb ty. dict_get ?d suf = Some tb \<and> t_construct_type (b_data tb) = TypeStr ty
                \<and> endswith ty (''Action'' @ tok))"
    unfolding core_types_iff by (simp add: CORE_TOPIC_SUFFIXES_TO_TYPE_TOKENS_def)
  have v: "validate_action_topic_builders self = Inr True \<longleftrightarrow>
             validate_topic_builders_have_required_suffixes ?tbs
           \<and> validate_core_topic_builders_have_required_types CORE_TOPIC_SUFFIXES_TO_TYPE_TOKENS ?d
               = Inr True"
    by (auto simp: validate_action_topic_builders_def Let_def split: sum.splits)
  have m: "map b_name_suffix ?tbs = map (b_name_suffix \<circ> snd) (a_topic_names_to_builders (b_data self))"
    by simp
  have main: "validate_action_topic_builders self = Inr True \<longleftrightarrow>
      card (set (map (b_name_suffix \<circ> snd) (a_topic_names_to_builders (b_data self)))) \<ge> 3
    \<and> set (map (b_name_suffix \<circ> snd) (a_topic_names_to_builders (b_data self)))
        \<subseteq> {''/goal'', ''/cancel'', ''/feedback'', ''/result'', ''/status''}
    \<and> (\<forall>(suf, tok) \<in> {(''/feedback'', ''Feedback''), (''/goal'', ''Goal''), (''/result'', ''Result'')}.
          \<exists>tb ty. dict_get ?d suf = Some tb \<and> t_construct_type (b_data tb) = TypeStr ty
            \<and> endswith ty (''Action'' @ tok))"
    unfolding v required_suffixes_iff c m set_TOPIC_SUFFIXES by blast
  then show ?thesis by auto
qed

lemma dict_get_dict_set: "dict_get (dict_set k v d) k' = (if k' = k then Some v else dict_get d k')"
  by (induction d) (auto simp: dict_get_def)

lemma dict_keys_dict_set: "set (dict_keys (dict_set k v d)) = insert k (set (dict_keys d))"
  by (induction d) (auto simp: dict_keys_def)

lemma distinct_dict_set: "distinct (dict_keys d) \<Longrightarrow> distinct (dict_keys (dict_set k v d))"
proof (induction d)
  case Nil
  then show ?case by (simp add: dict_keys_def)
next
  case (Cons p d)
  then show ?case
    using dict_keys_dict_set[of k v d] by (auto simp: dict_keys_def)
qed

lemma dict_get_in_set: "distinct (dict_keys d) \<Longrightarrow> dict_get d k = Some c \<longleftrightarrow> (k, c) \<in> set d"
  by (simp add: dict_get_def dict_keys_def)

lemma set_dict_set: "distinct (dict_keys d) \<Longrightarrow>
   set (dict_set k v d) = insert (k, v) {p \<in> set d. fst p \<noteq> k}"
  by (induction d) (force simp: dict_keys_def)+

lemma dict_set_twice: "dict_set k v (dict_set k v' d) = dict_set k v d"
  by (induction d) auto

lemma add_or_increment_get:
  "dict_get (add_or_increment_dictionary_count d k) n =
     (if n = k then Some (count_of d k + 1) else dict_get d n)"
  by (auto simp: add_or_increment_dictionary_count_def Let_def dict_get_dict_set count_of_def
      split: option.splits)

lemma add_or_increment_ok:
  assumes "counts_ok d"
  shows "counts_ok (add_or_increment_dictionary_count d k)"
proof -
  have "counts_ok (dict_set k v d)" if "0 < v" for v
    using assms that set_dict_set[of d k v] distinct_dict_set[of d k v]
    by (auto simp: counts_ok_def)
  then show ?thesis
    using assms
    by (auto simp: add_or_increment_dictionary_count_def Let_def dict_get_dict_set
        dict_set_twice split: option.splits)
qed

lemma count_of_add: "count_of (add_or_increment_dictionary_count d k) n
     = count_of d n + (if n = k then 1 else 0)"
  by (simp add: count_of_def add_or_increment_get)

lemma foldl_add_count:
  "distinct names \<Longrightarrow>
   count_of (foldl add_or_increment_dictionary_count d names) n
     = count_of d n + (if n \<in> set names then 1 else 0)"
  by (induction names arbitrary: d) (auto simp: count_of_add)

lemma foldl_add_ok:
  "counts_ok d \<Longrightarrow> counts_ok (foldl add_or_increment_dictionary_count d names)"
  by (induction names arbitrary: d) (simp_all add: add_or_increment_ok)

lemma count_suffixes_count:
  assumes "\<And>tb. distinct (names_of tb)"
    and "count_suffixes names_of self suffixes d = Inr d'"
  shows "count_of d' n = count_of d n + appearances names_of self suffixes n"
  using assms(2)
proof (induction suffixes arbitrary: d)
  case Nil
  then show ?case by (simp add: appearances_def)
next
  case (Cons s suffixes)
  then obtain tb where tb: "dict_get (a_topic_name_suffixes_to_builders (b_data self)) s = Some tb"
    and r: "count_suffixes names_of self suffixes
              (foldl add_or_increment_dictionary_count d (names_of tb)) = Inr d'"
    by (auto split: option.splits)
  from Cons.IH[OF r] foldl_add_count[OF assms(1), of d tb n] tb
  show ?case by (simp add: appearances_def)
qed

lemma count_suffixes_ok:
  "counts_ok d \<Longrightarrow> count_suffixes names_of self suffixes d = Inr d' \<Longrightarrow> counts_ok d'"
proof (induction suffixes arbitrary: d)
  case Nil
  then show ?case by simp
next
  case (Cons s suffixes)
  then show ?case by (auto split: option.splits intro: foldl_add_ok)
qed

lemma appearances_le: "appearances names_of self suffixes n \<le> length suffixes"
  by (simp add: appearances_def)

lemma count_of_ok: "counts_ok d \<Longrightarrow> dict_get d n = (if count_of d n = 0 then None else Some (count_of d n))"
proof (cases "dict_get d n")
  case None
  then show ?thesis by (simp add: count_of_def)
next
  case (Some c)
  assume ok: "counts_ok d"
  then have "(n, c) \<in> set d" using Some by (simp add: counts_ok_def dict_get_in_set)
  then have "0 < c" using ok by (auto simp: counts_ok_def)
  then show ?thesis using Some by (simp add: count_of_def)
qed

lemma not_valid_message_inj [simp]: "not_valid_message a = not_valid_message b \<longleftrightarrow> a = b"
  by (simp add: not_valid_message_def)

lemma gather_valid_set:
  "gather_valid_action_node_names d = (valid, lg) \<Longrightarrow>
   (n \<in> set valid \<longleftrightarrow> (n, NUM_TOPIC_SUFFIXES) \<in> set d)
   \<and> (not_valid_message n \<in> set lg \<longleftrightarrow> (\<exists>c. (n, c) \<in> set d \<and> c \<noteq> NUM_TOPIC_SUFFIXES))"
proof (induction d arbitrary: valid lg)
  case Nil
  then show ?case by simp
next
  case (Cons p d)
  obtain k c where p: "p = (k, c)" by (cases p)
  obtain v l where g: "gather_valid_action_node_names d = (v, l)"
    by (cases "gather_valid_action_node_names d")
  from Cons.IH[OF g] Cons.prems p g show ?case
    by (auto split: if_splits)
qed

text \<open>Claim C5. Counting starts from an empty dict, over publisher suffixes and subscriber
  suffixes taken from the five known ones, none of them twice. The count of a node is then
  the number of checked suffixes whose topic lists it; a node is taken as valid exactly when
  that count is \<open>NUM_TOPIC_SUFFIXES\<close>, which can only be the number of all suffixes checked;
  a node that appears on some but not all of the checked suffixes is left out and gets an
  error message in the log.\<close>

theorem action_node_accepted_only_on_all_suffixes:
  assumes "distinct publisher_suffixes" and "distinct subscriber_suffixes"
    and "set publisher_suffixes \<inter> set subscriber_suffixes = {}"
    and "set publisher_suffixes \<union> set subscriber_suffixes \<subseteq> set TOPIC_SUFFIXES"
    and "count_action_node_appearances node_filter self publisher_suffixes subscriber_suffixes []
           = Inr counts"
    and "gather_valid_action_node_names counts = (valid, lg)"
    and "app = appearances (publisher_node_names node_filter) self publisher_suffixes n
             + appearances (subscriber_node_names node_filter) self subscriber_suffixes n"
  shows "dict_get counts n = (if app = 0 then None else Some app)
       \<and> (n \<in> set valid \<longleftrightarrow> app = NUM_TOPIC_SUFFIXES)
       \<and> (n \<in> set valid \<longrightarrow> app = length publisher_suffixes + length subscriber_suffixes)
       \<and> (0 < app \<and> app < length publisher_suffixes + length subscriber_suffixes
            \<longrightarrow> n \<notin> set valid \<and> not_valid_message n \<in> set lg)"
proof -
  from assms(5) obtain c1 where
    c1: "count_suffixes (publisher_node_names node_filter) self publisher_suffixes [] = Inr c1"
    and c2: "count_suffixes (subscriber_node_names node_filter) self subscriber_suffixes c1 = Inr counts"
    by (auto simp: count_action_node_appearances_def split: sum.splits)
  have d1: "\<And>tb. distinct (publisher_node_names node_filter tb)"
    and d2: "\<And>tb. distinct (subscriber_node_names node_filter tb)"
    by (simp_all add: publisher_node_names_def subscriber_node_names_def)
  have ok0: "counts_ok []" by (simp add: counts_ok_def dict_keys_def)
  have ok: "counts_ok counts"
    using count_suffixes_ok[OF count_suffixes_ok[OF ok0 c1] c2] .
  have "count_of counts n = app"
    using count_suffixes_count[OF d1 c1, of n] count_suffixes_count[OF d2 c2, of n] assms(7)
    by (simp add: count_of_def dict_get_def)
  with count_of_ok[OF ok, of n] have g: "dict_get counts n = (if app = 0 then None else Some app)"
    by simp
  have dk: "distinct (dict_keys counts)" using ok by (simp add: counts_ok_def)
  from gather_valid_set[OF assms(6), of n] have
    v: "n \<in> set valid \<longleftrightarrow> dict_get counts n = Some NUM_TOPIC_SUFFIXES"
    and l: "not_valid_message n \<in> set lg \<longleftrightarrow> (\<exists>c. dict_get counts n = Some c \<and> c \<noteq> NUM_TOPIC_SUFFIXES)"
    by (simp_all add: dict_get_in_set[OF dk])
  have v': "n \<in> set valid \<longleftrightarrow> app = NUM_TOPIC_SUFFIXES"
    using v g by (auto simp: NUM_TOPIC_SUFFIXES_5)
  have "length publisher_suffixes + length subscriber_suffixes
          = card (set publisher_suffixes \<union> set subscriber_suffixes)"
    using assms(1,2,3) by (simp add: card_Un_disjoint distinct_card)
  also have "\<dots> \<le> card (set TOPIC_SUFFIXES)"
    using assms(4) by (simp add: card_mono)
  also have "\<dots> \<le> NUM_TOPIC_SUFFIXES"
    by (simp add: NUM_TOPIC_SUFFIXES_def card_length)
  finally have tot: "length publisher_suffixes + length subscriber_suffixes \<le> NUM_TOPIC_SUFFIXES" .
  have le: "app \<le> length publisher_suffixes + length subscriber_suffixes"
    using appearances_le[of "publisher_node_names node_filter" self publisher_suffixes n]
      appearances_le[of "subscriber_node_names node_filter" self subscriber_suffixes n] assms(7)
    by simp
  have 3: "n \<in> set valid \<longrightarrow> app = length publisher_suffixes + length subscriber_suffixes"
    using v' tot le by simp
  have 4: "0 < app \<and> app < length publisher_suffixes + length subscriber_suffixes
            \<longrightarrow> n \<notin> set valid \<and> not_valid_message n \<in> set lg"
    using v' l g tot by auto
  from g v' 3 4 show ?thesis by blast
qed

lemma example_action_data:
  "b_data example_action =
     \<lparr>a_construct_type = None,
      a_topic_names_to_builders =
        [(''/fib/cancel'', example_topic ''/fib/cancel'' ''actionlib_msgs/GoalID'' [''/cli''] [''/srv'']),
         (''/fib/goal'', example_topic ''/fib/goal'' ''pkg/FibActionGoal'' [''/cli''] [''/srv'']),
         (''/fib/feedback'', example_topic ''/fib/feedback'' ''pkg/FibActionFeedback'' [''/srv''] [''/cli'']),
         (''/fib/result'', example_topic ''/fib/result'' ''pkg/FibActionResult'' [''/srv''] [''/cli'']),
         (''/fib/status'', example_topic ''/fib/status'' ''actionlib_msgs/GoalStatusArray'' [''/srv''] [''/cli'', ''/mon''])],
      a_topic_name_suffixes_to_builders =
        [(''/cancel'', example_topic ''/fib/cancel'' ''actionlib_msgs/GoalID'' [''/cli''] [''/srv'']),
         (''/goal'', example_topic ''/fib/goal'' ''pkg/FibActionGoal'' [''/cli''] [''/srv'']),
         (''/feedback'', example_topic ''/fib/feedback'' ''pkg/FibActionFeedback'' [''/srv''] [''/cli'']),
         (''/result'', example_topic ''/fib/result'' ''pkg/FibActionResult'' [''/srv''] [''/cli'']),
         (''/status'', example_topic ''/fib/status'' ''actionlib_msgs/GoalStatusArray'' [''/srv''] [''/cli'', ''/mon''])],
      a_client_node_names = [], a_server_node_names = []\<rparr>"
  by (simp add: example_action_def add_topic_builder_def ActionBuilder_init_def
      EntityBuilder_init_def example_topic_def TopicBuilder_init_def)

lemma example_action_two_topics_data:
  "b_data example_action_two_topics =
     \<lparr>a_construct_type = None,
      a_topic_names_to_builders =
        [(''/fib/goal'', example_topic ''/fib/goal'' ''pkg/FibActionGoal'' [''/cli''] [''/srv'']),
         (''/fib/result'', example_topic ''/fib/result'' ''pkg/FibActionResult'' [''/srv''] [''/cli''])],
      a_topic_name_suffixes_to_builders =
        [(''/goal'', example_topic ''/fib/goal'' ''pkg/FibActionGoal'' [''/cli''] [''/srv'']),
         (''/result'', example_topic ''/fib/result'' ''pkg/FibActionResult'' [''/srv''] [''/cli''])],
      a_client_node_names = [], a_server_node_names = []\<rparr>"
  by (simp add: example_action_two_topics_def add_topic_builder_def ActionBuilder_init_def
      EntityBuilder_init_def example_topic_def TopicBuilder_init_def)

lemma example_action_valid: "validate_action_topic_builders example_action = Inr True"
  by (simp add: validate_action_topic_builders_def example_action_data
      validate_topic_builders_have_required_suffixes_def CORE_TOPIC_SUFFIXES_TO_TYPE_TOKENS_def
      dict_get_def example_topic_def TopicBuilder_init_def EntityBuilder_init_def endswith_def
      TOPIC_SUFFIXES_def CLIENT_PUBLISHED_TOPIC_SUFFIXES_def SERVER_PUBLISHED_TOPIC_SUFFIXES_def)

theorem validate_action_topic_builders_iff_witness:
  "validate_action_topic_builders example_action = Inr True
   \<and> (\<exists>tb ty. dict_get (a_topic_name_suffixes_to_builders (b_data example_action)) ''/goal'' = Some tb
         \<and> t_construct_type (b_data tb) = TypeStr ty \<and> endswith ty ''ActionGoal'')
   \<and> card (set (map (b_name_suffix \<circ> snd)
         (a_topic_names_to_builders (b_data example_action_two_topics)))) \<le> 2
   \<and> validate_action_topic_builders example_action_two_topics \<noteq> Inr True"
proof -
  have h2: "card (set (map (b_name_suffix \<circ> snd)
         (a_topic_names_to_builders (b_data example_action_two_topics)))) \<le> 2"
    by (simp add: example_action_two_topics_data example_topic_def TopicBuilder_init_def
        EntityBuilder_init_def)
  from validate_action_topic_builders_iff[of example_action] example_action_valid
  have "\<exists>tb ty. dict_get (a_topic_name_suffixes_to_builders (b_data example_action)) ''/goal'' = Some tb
         \<and> t_construct_type (b_data tb) = TypeStr ty \<and> endswith ty (''Action'' @ ''Goal'')"
    by blast
  moreover from validate_action_topic_builders_iff[of example_action_two_topics] h2
  have "validate_action_topic_builders example_action_two_topics \<noteq> Inr True"
    by blast
  ultimately show ?thesis using example_action_valid h2 by simp
qed

theorem action_node_accepted_only_on_all_suffixes_witness:
  "count_action_node_appearances (\<lambda>name. False) example_action
       CLIENT_PUBLISHED_TOPIC_SUFFIXES SERVER_PUBLISHED_TOPIC_SUFFIXES []
     = Inr [(''/cli'', 5), (''/mon'', 1)]
   \<and> gather_valid_action_node_names [(''/cli'', 5), (''/mon'', 1)]
     = ([''/cli''], [not_valid_message ''/mon''])
   \<and> dict_get [(''/cli'', 5::nat), (''/mon'', 1)] ''/cli'' = Some (2 + 3)
   \<and> ''/mon'' \<notin> set [''/cli'']
   \<and> not_valid_message ''/mon'' \<in> set [not_valid_message ''/mon'']"
proof -
  let ?P = "publisher_node_names (\<lambda>name. False)"
  let ?S = "subscriber_node_names (\<lambda>name. False)"
  have h1: "distinct CLIENT_PUBLISHED_TOPIC_SUFFIXES"
    and h2: "distinct SERVER_PUBLISHED_TOPIC_SUFFIXES"
    and h3: "set CLIENT_PUBLISHED_TOPIC_SUFFIXES \<inter> set SERVER_PUBLISHED_TOPIC_SUFFIXES = {}"
    and h4: "set CLIENT_PUBLISHED_TOPIC_SUFFIXES \<union> set SERVER_PUBLISHED_TOPIC_SUFFIXES
               \<subseteq> set TOPIC_SUFFIXES"
    by (simp_all add: CLIENT_PUBLISHED_TOPIC_SUFFIXES_def SERVER_PUBLISHED_TOPIC_SUFFIXES_def
        TOPIC_SUFFIXES_def)
  have h5: "count_action_node_appearances (\<lambda>name. False) example_action
       CLIENT_PUBLISHED_TOPIC_SUFFIXES SERVER_PUBLISHED_TOPIC_SUFFIXES []
     = Inr [(''/cli'', 5), (''/mon'', 1)]"
    by (simp add: count_action_node_appearances_def example_action_data dict_get_def
        CLIENT_PUBLISHED_TOPIC_SUFFIXES_def SERVER_PUBLISHED_TOPIC_SUFFIXES_def
        publisher_node_names_def subscriber_node_names_def example_topic_def
        add_or_increment_dictionary_count_def)
  have h6: "gather_valid_action_node_names [(''/cli'', 5), (''/mon'', 1)]
     = ([''/cli''], [not_valid_message ''/mon''])"
    by (simp add: NUM_TOPIC_SUFFIXES_5)
  have a1: "appearances ?P example_action CLIENT_PUBLISHED_TOPIC_SUFFIXES ''/cli''
          + appearances ?S example_action SERVER_PUBLISHED_TOPIC_SUFFIXES ''/cli'' = 2 + 3"
    by (simp add: appearances_def example_action_data dict_get_def
        CLIENT_PUBLISHED_TOPIC_SUFFIXES_def SERVER_PUBLISHED_TOPIC_SUFFIXES_def
        publisher_node_names_def subscriber_node_names_def example_topic_def)
  have a2: "appearances ?P example_action CLIENT_PUBLISHED_TOPIC_SUFFIXES ''/mon''
          + appearances ?S example_action SERVER_PUBLISHED_TOPIC_SUFFIXES ''/mon'' = 1"
    by (simp add: appearances_def example_action_data dict_get_def
        CLIENT_PUBLISHED_TOPIC_SUFFIXES_def SERVER_PUBLISHED_TOPIC_SUFFIXES_def
        publisher_node_names_def subscriber_node_names_def example_topic_def)
  have l: "length CLIENT_PUBLISHED_TOPIC_SUFFIXES + length SERVER_PUBLISHED_TOPIC_SUFFIXES = 5"
    by (simp add: CLIENT_PUBLISHED_TOPIC_SUFFIXES_def SERVER_PUBLISHED_TOPIC_SUFFIXES_def)
  from action_node_accepted_only_on_all_suffixes[OF h1 h2 h3 h4 h5 h6 refl, of "''/cli''"] a1
  have 1: "dict_get [(''/cli'', 5::nat), (''/mon'', 1)] ''/cli'' = Some (2 + 3)"
    by (simp add: NUM_TOPIC_SUFFIXES_5)
  from action_node_accepted_only_on_all_suffixes[OF h1 h2 h3 h4 h5 h6 refl, of "''/mon''"] a2 l
  have 2: "''/mon'' \<notin> set [''/cli''] \<and> not_valid_message ''/mon'' \<in> set [not_valid_message ''/mon'']"
    by simp
  from 1 2 h5 h6 show ?thesis by simp
qed

section \<open>Theorems on the process matcher\<close>

lemma foldl_scan:
  "foldl (scan_cmd namespace node_name) (a, b) cmds =
     (a \<or> (\<exists>cmd \<in> set cmds. str_in (''__ns:='' @ namespace) cmd),
      b \<or> (\<exists>cmd \<in> set cmds. str_in node_name (last_segment cmd) \<or> token_overlap node_name (last_segment cmd)))"
  by (induction cmds arbitrary: a b)
    (auto simp: scan_cmd_def Let_def last_segment_def token_overlap_def)

lemma same_set_length:
  assumes "distinct xs" "distinct ys" "set xs = set ys"
  shows "length xs = length ys"
  using assms by (metis distinct_card)

lemma same_set_cases:
  assumes "distinct xs" "distinct ys" "set xs = set ys"
  shows "(xs = [] \<longleftrightarrow> ys = []) \<and> (\<forall>x. xs = [x] \<longleftrightarrow> ys = [x])"
proof -
  have l: "length xs = length ys" using same_set_length[OF assms] .
  have "xs = [x] \<longleftrightarrow> ys = [x]" for x
  proof
    assume "xs = [x]"
    then have "length ys = 1" "set ys = {x}" using l assms(3) by auto
    then show "ys = [x]" by (cases ys) auto
  next
    assume "ys = [x]"
    then have "length xs = 1" "set xs = {x}" using l assms(3) by auto
    then show "xs = [x]" by (cases xs) auto
  qed
  moreover have "xs = [] \<longleftrightarrow> ys = []" using l by auto
  ultimately show ?thesis by blast
qed

lemma pick_one_same_set:
  assumes "distinct xs" "distinct ys" "set xs = set ys"
  shows "pick_one xs = pick_one ys"
proof (cases "\<exists>x. xs = [x]")
  case True
  then obtain x where "xs = [x]" by blast
  moreover then have "ys = [x]" using same_set_cases[OF assms] by blast
  ultimately show ?thesis by simp
next
  case False
  then have "\<not> (\<exists>x. ys = [x])" using same_set_cases[OF assms] by blast
  with False show ?thesis
    by (cases xs; cases ys; cases "tl xs"; cases "tl ys") (auto simp: pick_one_def)
qed

lemma distinct_pids: "distinct (map p_pid xs) \<Longrightarrow> distinct xs"
  by (rule distinct_map[THEN iffD1, THEN conjunct1])

lemma set_remove_parents:
  "set (remove_parents xs) = {p \<in> set xs. p_pid p \<notin> {p_ppid q | q. q \<in> set xs \<and> p_ppid q \<in> p_pid ` set xs}}"
  by (auto simp: remove_parents_def Let_def)

lemma set_remove_assigned:
  "set (remove_assigned xs) = {p \<in> set xs. p_pid p \<notin> {p_pid q | q. q \<in> set xs \<and> p_assigned q \<noteq> None}}"
  by (auto simp: remove_assigned_def Let_def)

lemma distinct_remove: "distinct xs \<Longrightarrow> distinct (remove_assigned (remove_parents xs))"
  by (simp add: remove_parents_def remove_assigned_def Let_def)

lemma remove_assigned_unassigned:
  "proc \<in> set (remove_assigned xs) \<Longrightarrow> proc \<in> set xs \<and> p_assigned proc = None"
  by (auto simp: set_remove_assigned)

lemma remove_parents_subset: "proc \<in> set (remove_parents xs) \<Longrightarrow> proc \<in> set xs"
  by (simp add: set_remove_parents)

lemma get_node_pid_no_guess:
  "fst (get_node_pid procs ns nn False) =
     (let possible = filter (is_candidate ns nn) procs
      in if possible = [] then None
         else if length possible = 1 then pick_one possible
         else pick_one (remove_assigned (remove_parents possible)))"
  by (auto simp: get_node_pid_def Let_def pick_one_def split: list.splits)

lemma get_node_pid_order:
  assumes "distinct (map p_pid procs)" "distinct (map p_pid procs')" "set procs' = set procs"
  shows "fst (get_node_pid procs' ns nn False) = fst (get_node_pid procs ns nn False)"
proof -
  let ?P = "filter (is_candidate ns nn) procs"
  let ?P' = "filter (is_candidate ns nn) procs'"
  have d: "distinct ?P" "distinct ?P'"
    using assms(1,2) by (simp_all add: distinct_pids)
  have s: "set ?P' = set ?P" using assms(3) by simp
  have l: "length ?P' = length ?P" using same_set_length[OF d(2) d(1) s] .
  have e: "?P' = [] \<longleftrightarrow> ?P = []" using l by auto
  have 1: "pick_one ?P' = pick_one ?P" using pick_one_same_set[OF d(2) d(1) s] .
  have "set (remove_assigned (remove_parents ?P')) = set (remove_assigned (remove_parents ?P))"
    unfolding set_remove_assigned set_remove_parents s ..
  then have 2: "pick_one (remove_assigned (remove_parents ?P'))
            = pick_one (remove_assigned (remove_parents ?P))"
    using pick_one_same_set distinct_remove d by blast
  show ?thesis
    unfolding get_node_pid_no_guess Let_def using e l 1 2 by simp
qed

lemma get_node_pid_none:
  "fst (get_node_pid procs ns nn guess) = None \<Longrightarrow> snd (get_node_pid procs ns nn guess) = procs"
  by (auto simp: get_node_pid_def Let_def split: list.splits if_splits)

lemma get_node_pid_sole:
  "filter (is_candidate ns nn) procs = [proc] \<Longrightarrow>
   get_node_pid procs ns nn guess = (Some (p_pid proc), mark_assigned ns nn (p_pid proc) procs)"
  by (simp add: get_node_pid_def)

lemma get_node_pid_several:
  assumes "fst (get_node_pid procs ns nn guess) = Some pid"
    and "length (filter (is_candidate ns nn) procs) \<noteq> 1"
  shows "\<exists>proc \<in> set procs. p_pid proc = pid \<and> is_candidate ns nn proc \<and> p_assigned proc = None"
proof -
  let ?P = "filter (is_candidate ns nn) procs"
  let ?R = "remove_assigned (remove_parents ?P)"
  from assms obtain proc rest where r: "?R = proc # rest" and p: "p_pid proc = pid"
    by (auto simp: get_node_pid_def Let_def split: list.splits if_splits)
  then have "proc \<in> set ?R" by simp
  then have "proc \<in> set ?P" "p_assigned proc = None"
    using remove_assigned_unassigned remove_parents_subset by blast+
  then show ?thesis using p by auto
qed

lemma is_candidate_eq:
  "is_candidate namespace node_name proc \<longleftrightarrow>
     p_cmdline proc \<noteq> [] \<and> candidate_rule namespace node_name proc"
  by (auto simp: is_candidate_def Let_def foldl_scan candidate_rule_def)

text \<open>Claim C4, as stated, fails for a process whose command line is empty: the rule holds
  for it (root namespace, process name equal to the node name), but the loop skips it.\<close>

theorem candidate_rule_counterexample:
  "candidate_rule ''/'' ''talker'' proc_no_cmdline \<and> \<not> is_candidate ''/'' ''talker'' proc_no_cmdline"
  by (simp add: candidate_rule_def is_candidate_eq proc_no_cmdline_def)

text \<open>Claim C4, amended. A process is a candidate exactly when its command line is not
  empty and the rule holds: the namespace is the root or some command line entry contains
  \<open>__ns:=<namespace>\<close>, and the process name is the node name, or the node name occurs in the
  last path segment of some entry, or node name and that segment overlap by half of their
  \<open>_\<close>-tokens each way.\<close>

theorem candidate_iff_rule_with_cmdline:
  "is_candidate namespace node_name proc \<longleftrightarrow>
     p_cmdline proc \<noteq> [] \<and> candidate_rule namespace node_name proc"
  by (rule is_candidate_eq)

theorem candidate_iff_rule_with_cmdline_witness:
  "p_cmdline proc_talker \<noteq> [] \<and> candidate_rule ''/demo'' ''talker'' proc_talker
   \<and> is_candidate ''/demo'' ''talker'' proc_talker"
proof -
  have h1: "p_cmdline proc_talker \<noteq> []" by (simp add: proc_talker_def)
  have h2: "candidate_rule ''/demo'' ''talker'' proc_talker"
    by (simp add: candidate_rule_def proc_talker_def last_segment_def)
  from candidate_iff_rule_with_cmdline[of "''/demo''" "''talker''" proc_talker] h1 h2
  show ?thesis by simp
qed

text \<open>Claim C3, as stated, fails when the only candidate is already assigned: it is
  selected all the same, and the new node name is appended to its marker.\<close>

theorem get_node_pid_assigned_counterexample:
  "p_assigned proc_talker = Some ''listener''
   \<and> get_node_pid [proc_talker] ''/'' ''talker'' False
       = (Some 42, [proc_talker\<lparr>p_assigned := Some ''listener,talker''\<rparr>])"
  by (simp add: get_node_pid_def is_candidate_eq candidate_rule_def last_segment_def
      proc_talker_def mark_assigned_def assigned_label_def)

text \<open>Claim C3, amended. A sole candidate is selected whether or not it is assigned. When
  the candidates are several, the process selected is one that was not assigned. Without
  guessing, the result is the same for every order in which the processes of the snapshot
  (each pid once) are enumerated, so the same snapshot gives the same match or the same
  no-match; and a run that returns no match leaves the snapshot as it was.\<close>

theorem get_node_pid_selection:
  "(filter (is_candidate ns nn) procs = [proc] \<longrightarrow>
      fst (get_node_pid procs ns nn guess) = Some (p_pid proc))
   \<and> (fst (get_node_pid procs ns nn guess) = Some pid
        \<and> length (filter (is_candidate ns nn) procs) \<noteq> 1 \<longrightarrow>
      (\<exists>proc \<in> set procs. p_pid proc = pid \<and> is_candidate ns nn proc \<and> p_assigned proc = None))
   \<and> (distinct (map p_pid procs) \<and> distinct (map p_pid procs') \<and> set procs' = set procs \<longrightarrow>
      fst (get_node_pid procs' ns nn False) = fst (get_node_pid procs ns nn False))
   \<and> (fst (get_node_pid procs ns nn guess) = None \<longrightarrow> snd (get_node_pid procs ns nn guess) = procs)"
  using get_node_pid_sole[of ns nn procs proc guess] get_node_pid_several[of procs ns nn guess pid]
    get_node_pid_order[of procs procs' ns nn] get_node_pid_none[of procs ns nn guess]
  by simp

lemma two_talkers_candidates:
  "is_candidate ''/'' ''talker'' proc_talker" "is_candidate ''/'' ''talker'' proc_talker_2"
  by (simp_all add: is_candidate_eq candidate_rule_def last_segment_def proc_talker_def
      proc_talker_2_def)

lemma two_talkers_pid:
  "fst (get_node_pid [proc_talker, proc_talker_2] ''/'' ''talker'' False) = Some 43"
  "fst (get_node_pid [proc_talker_2, proc_talker] ''/'' ''talker'' False) = Some 43"
  by (simp_all add: get_node_pid_def two_talkers_candidates remove_parents_def
      remove_assigned_def)
    (simp_all add: proc_talker_def proc_talker_2_def)

theorem get_node_pid_selection_witness:
  "fst (get_node_pid [proc_talker, proc_talker_2] ''/'' ''talker'' False) = Some 43
   \<and> length (filter (is_candidate ''/'' ''talker'') [proc_talker, proc_talker_2]) \<noteq> 1
   \<and> (\<exists>proc \<in> set [proc_talker, proc_talker_2].
         p_pid proc = 43 \<and> is_candidate ''/'' ''talker'' proc \<and> p_assigned proc = None)
   \<and> distinct (map p_pid [proc_talker, proc_talker_2])
   \<and> distinct (map p_pid [proc_talker_2, proc_talker])
   \<and> set [proc_talker_2, proc_talker] = set [proc_talker, proc_talker_2]
   \<and> fst (get_node_pid [proc_talker_2, proc_talker] ''/'' ''talker'' False)
       = fst (get_node_pid [proc_talker, proc_talker_2] ''/'' ''talker'' False)"
proof -
  have h1: "length (filter (is_candidate ''/'' ''talker'') [proc_talker, proc_talker_2]) \<noteq> 1"
    by (simp add: two_talkers_candidates)
  have h2: "distinct (map p_pid [proc_talker, proc_talker_2])"
    "distinct (map p_pid [proc_talker_2, proc_talker])"
    "set [proc_talker_2, proc_talker] = set [proc_talker, proc_talker_2]"
    by (auto simp: proc_talker_def proc_talker_2_def)
  from get_node_pid_selection[of "''/''" "''talker''" "[proc_talker, proc_talker_2]" proc_talker
      False 43 "[proc_talker_2, proc_talker]"] two_talkers_pid(1) h1 h2
  show ?thesis by blast
qed

section \<open>Theorems on \<open>update_attributes\<close>\<close>

lemma elem_eq_refl [simp]: "elem_eq a a"
  by (simp add: elem_eq_def)

lemma elem_eq_sym: "elem_eq a b \<longleftrightarrow> elem_eq b a"
  by (auto simp: elem_eq_def)

lemma py_eq_refl [simp]: "py_eq v v"
  by (cases v) (simp_all add: list_all2_same)

lemma dict_map_put: "dict_map (dict_put k v d) = (dict_map d)(norm k \<mapsto> norm v)"
  by (induction d) (auto simp: dict_map_def)

lemma dom_dict_map: "dom (dict_map ps) = (norm \<circ> fst) ` set ps"
  by (simp add: dict_map_def dom_map_of_conv_image_fst image_image case_prod_unfold comp_def)

lemma dict_map_put_all:
  "distinct (map (norm \<circ> fst) ps) \<Longrightarrow> dict_map (dict_put_all d ps) = dict_map d ++ dict_map ps"
proof (induction ps arbitrary: d)
  case Nil
  then show ?case by (simp add: dict_put_all_def dict_map_def)
next
  case (Cons p ps)
  obtain k v where p: "p = (k, v)" by (cases p)
  have nk: "norm k \<notin> dom (dict_map ps)"
    using Cons.prems p by (simp add: dom_dict_map)
  have "dict_map (dict_put_all d (p # ps)) = dict_map (dict_put_all (dict_put k v d) ps)"
    by (simp add: dict_put_all_def p)
  also have "\<dots> = dict_map (dict_put k v d) ++ dict_map ps"
    using Cons.IH[of "dict_put k v d"] Cons.prems by simp
  also have "\<dots> = (dict_map d ++ dict_map ps)(norm k \<mapsto> norm v)"
    using nk by (simp add: dict_map_put map_add_upd_left)
  also have "\<dots> = dict_map d ++ dict_map (p # ps)"
    by (simp add: p dict_map_def)
  finally show ?case .
qed

lemma set_add_all: "norm ` set (foldl set_add xs ys) = norm ` set xs \<union> norm ` set ys"
  by (induction ys arbitrary: xs) (auto simp: set_add_def)

lemma hashables_scalars: "hashables (map ESc ys) = Inr ys"
  by (induction ys) simp_all

lemma update_attribute_no_field: "self key = None \<Longrightarrow> update_attribute B self (key, new) = Inl ValueError"
  by (simp add: update_attribute_def)

lemma update_attribute_keeps_field:
  "update_attribute B self (key, new) = Inr self' \<Longrightarrow> self' key \<noteq> None"
  by (auto simp: update_attribute_def Let_def
      split: option.splits if_splits pyval.splits elem.splits scalar.splits sum.splits)

lemma update_attribute_cases:
  "(self key = Some (Sc PNone) \<longrightarrow>
      update_attribute B self (key, new) = Inr (self(key \<mapsto> new)))
   \<and> (self key = Some val \<and> val \<noteq> Sc PNone \<and> py_eq val new \<and> key \<noteq> ''version'' \<longrightarrow>
      update_attribute B self (key, new) = Inr self)
   \<and> (self key = Some val \<and> val \<noteq> Sc PNone \<and> new = Sc PNone \<longrightarrow>
      update_attribute B self (key, new) = Inr self)
   \<and> (self ''version'' = Some (Sc (PInt v)) \<longrightarrow>
      update_attribute B self (''version'', Sc (PInt n))
        = Inr (self(''version'' \<mapsto> Sc (PInt (max v n + 1)))))
   \<and> (key \<noteq> ''version'' \<and> self key = Some (PList xs) \<and> \<not> py_eq (PList xs) (PList ys) \<longrightarrow>
      update_attribute B self (key, PList ys) = Inr (self(key \<mapsto> PList (xs @ ys))))
   \<and> (key \<noteq> ''version'' \<and> self key = Some (PList xs) \<and> s \<noteq> PNone \<longrightarrow>
      update_attribute B self (key, Sc s)
        = Inr (if py_in (ESc s) xs then self else self(key \<mapsto> PList (xs @ [ESc s]))))
   \<and> (key \<noteq> ''version'' \<and> self key = Some (PDict d) \<and> \<not> py_eq (PDict d) (PDict d2) \<longrightarrow>
      update_attribute B self (key, PDict d2) = Inr (self(key \<mapsto> PDict (dict_put_all d d2))))
   \<and> (key \<noteq> ''version'' \<and> self key = Some (PSet ss) \<and> \<not> py_eq (PSet ss) (PSet zs) \<longrightarrow>
      update_attribute B self (key, PSet zs) = Inr (self(key \<mapsto> PSet (foldl set_add ss zs))))
   \<and> (key \<noteq> ''version'' \<and> self key = Some (Sc (PStr t)) \<and> \<not> py_eq (Sc (PStr t)) new
        \<and> new \<noteq> Sc PNone \<longrightarrow>
      update_attribute B self (key, new)
        = Inr (self(key \<mapsto> PList (ESc (PStr t) # (case new of PList ys \<Rightarrow> ys | Elem e \<Rightarrow> [e])))))"
proof (intro conjI impI)
  assume "self key = Some (Sc PNone)"
  then show "update_attribute B self (key, new) = Inr (self(key \<mapsto> new))"
    by (auto simp: update_attribute_def Let_def)
next
  assume "self key = Some val \<and> val \<noteq> Sc PNone \<and> py_eq val new \<and> key \<noteq> ''version''"
  then show "update_attribute B self (key, new) = Inr self"
    by (simp add: update_attribute_def Let_def)
next
  assume a: "self key = Some val \<and> val \<noteq> Sc PNone \<and> new = Sc PNone"
  then show "update_attribute B self (key, new) = Inr self"
    by (simp add: update_attribute_def Let_def)
next
  assume "self ''version'' = Some (Sc (PInt v))"
  then show "update_attribute B self (''version'', Sc (PInt n))
        = Inr (self(''version'' \<mapsto> Sc (PInt (max v n + 1))))"
    by (simp add: update_attribute_def Let_def)
next
  assume "key \<noteq> ''version'' \<and> self key = Some (PList xs) \<and> \<not> py_eq (PList xs) (PList ys)"
  then show "update_attribute B self (key, PList ys) = Inr (self(key \<mapsto> PList (xs @ ys)))"
    by (simp add: update_attribute_def Let_def)
next
  assume "key \<noteq> ''version'' \<and> self key = Some (PList xs) \<and> s \<noteq> PNone"
  then show "update_attribute B self (key, Sc s)
        = Inr (if py_in (ESc s) xs then self else self(key \<mapsto> PList (xs @ [ESc s])))"
    by (simp add: update_attribute_def Let_def)
next
  assume a: "key \<noteq> ''version'' \<and> self key = Some (PDict d) \<and> \<not> py_eq (PDict d) (PDict d2)"
  then show "update_attribute B self (key, PDict d2) = Inr (self(key \<mapsto> PDict (dict_put_all d d2)))"
    by (simp add: update_attribute_def Let_def dict_update_def)
next
  assume a: "key \<noteq> ''version'' \<and> self key = Some (PSet ss) \<and> \<not> py_eq (PSet ss) (PSet zs)"
  then show "update_attribute B self (key, PSet zs) = Inr (self(key \<mapsto> PSet (foldl set_add ss zs)))"
    by (simp add: update_attribute_def Let_def set_update_def hashables_scalars)
next
  assume a: "key \<noteq> ''version'' \<and> self key = Some (Sc (PStr t)) \<and> \<not> py_eq (Sc (PStr t)) new
        \<and> new \<noteq> Sc PNone"
  show "update_attribute B self (key, new)
        = Inr (self(key \<mapsto> PList (ESc (PStr t) # (case new of PList ys \<Rightarrow> ys | Elem e \<Rightarrow> [e]))))"
  proof (cases new)
    case (Elem e)
    then show ?thesis using a elem_eq_sym[of e "ESc (PStr t)"]
      by (simp add: update_attribute_def Let_def py_in_def)
  next
    case (PList ys)
    then show ?thesis using a by (simp add: update_attribute_def Let_def)
  qed
qed

text \<open>Claim C7. \<open>update_attributes\<close> goes through its keyword arguments in order, and for
  each pair \<open>(key, new)\<close> on a field of the entity it goes on with the entity merged as
  follows: a field that is unset (holds \<open>None\<close>) is set to the argument; an equal value leaves
  the entity as it is, except for \<open>version\<close>; a \<open>None\<close> argument leaves a set field as it is;
  an integer \<open>version\<close> becomes the larger of the two plus one, also when both are equal; a
  list field is extended by a list argument and gets a scalar argument appended unless it
  is in the list; a dict field becomes the union with a dict argument, whose values win;
  a set field becomes the union; a string field becomes the list of the old string
  followed by the elements of a list argument or by the one other argument. With no
  argument left the entity is returned.\<close>

theorem update_attributes_merge_semantics:
  "update_attributes B self [] = Inr self
   \<and> (self key = Some (Sc PNone) \<longrightarrow>
      update_attributes B self ((key, new) # kwargs)
        = update_attributes B (self(key \<mapsto> new)) kwargs)
   \<and> (self key = Some val \<and> val \<noteq> Sc PNone \<and> py_eq val new \<and> key \<noteq> ''version'' \<longrightarrow>
      update_attributes B self ((key, new) # kwargs) = update_attributes B self kwargs)
   \<and> (self key = Some val \<and> val \<noteq> Sc PNone \<and> new = Sc PNone \<longrightarrow>
      update_attributes B self ((key, new) # kwargs) = update_attributes B self kwargs)
   \<and> (self ''version'' = Some (Sc (PInt v)) \<longrightarrow>
      update_attributes B self ((''version'', Sc (PInt n)) # kwargs)
        = update_attributes B (self(''version'' \<mapsto> Sc (PInt (max v n + 1)))) kwargs)
   \<and> (key \<noteq> ''version'' \<and> self key = Some (PList xs) \<and> \<not> py_eq (PList xs) (PList ys) \<longrightarrow>
      update_attributes B self ((key, PList ys) # kwargs)
        = update_attributes B (self(key \<mapsto> PList (xs @ ys))) kwargs)
   \<and> (key \<noteq> ''version'' \<and> self key = Some (PList xs) \<and> s \<noteq> PNone \<longrightarrow>
      update_attributes B self ((key, Sc s) # kwargs)
        = update_attributes B
            (if py_in (ESc s) xs then self else self(key \<mapsto> PList (xs @ [ESc s]))) kwargs)
   \<and> (key \<noteq> ''version'' \<and> self key = Some (PDict d) \<and> \<not> py_eq (PDict d) (PDict d2)
        \<and> distinct (map (norm \<circ> fst) d2) \<longrightarrow>
      (\<exists>d'. update_attributes B self ((key, PDict d2) # kwargs)
               = update_attributes B (self(key \<mapsto> PDict d')) kwargs
            \<and> dict_map d' = dict_map d ++ dict_map d2))
   \<and> (key \<noteq> ''version'' \<and> self key = Some (PSet ss) \<and> \<not> py_eq (PSet ss) (PSet zs) \<longrightarrow>
      (\<exists>xs'. update_attributes B self ((key, PSet zs) # kwargs)
               = update_attributes B (self(key \<mapsto> PSet xs')) kwargs
            \<and> norm ` set xs' = norm ` set ss \<union> norm ` set zs))
   \<and> (key \<noteq> ''version'' \<and> self key = Some (Sc (PStr t)) \<and> \<not> py_eq (Sc (PStr t)) new
        \<and> new \<noteq> Sc PNone \<longrightarrow>
      update_attributes B self ((key, new) # kwargs)
        = update_attributes B
            (self(key \<mapsto> PList (ESc (PStr t) # (case new of PList ys \<Rightarrow> ys | Elem e \<Rightarrow> [e]))))
            kwargs)"
proof -
  note C = update_attribute_cases[of self key B new val v n xs ys s d d2 ss zs t]
  show ?thesis
  proof (intro conjI impI)
    show "update_attributes B self [] = Inr self" by simp
  next
    assume "self key = Some (Sc PNone)"
    with C show "update_attributes B self ((key, new) # kwargs)
        = update_attributes B (self(key \<mapsto> new)) kwargs" by simp
  next
    assume "self key = Some val \<and> val \<noteq> Sc PNone \<and> py_eq val new \<and> key \<noteq> ''version''"
    with C show "update_attributes B self ((key, new) # kwargs) = update_attributes B self kwargs"
      by simp
  next
    assume "self key = Some val \<and> val \<noteq> Sc PNone \<and> new = Sc PNone"
    with C show "update_attributes B self ((key, new) # kwargs) = update_attributes B self kwargs"
      by simp
  next
    assume "self ''version'' = Some (Sc (PInt v))"
    with C show "update_attributes B self ((''version'', Sc (PInt n)) # kwargs)
        = update_attributes B (self(''version'' \<mapsto> Sc (PInt (max v n + 1)))) kwargs" by simp
  next
    assume "key \<noteq> ''version'' \<and> self key = Some (PList xs) \<and> \<not> py_eq (PList xs) (PList ys)"
    with C show "update_attributes B self ((key, PList ys) # kwargs)
        = update_attributes B (self(key \<mapsto> PList (xs @ ys))) kwargs" by simp
  next
    assume "key \<noteq> ''version'' \<and> self key = Some (PList xs) \<and> s \<noteq> PNone"
    with C show "update_attributes B self ((key, Sc s) # kwargs)
        = update_attributes B
            (if py_in (ESc s) xs then self else self(key \<mapsto> PList (xs @ [ESc s]))) kwargs"
      by simp
  next
    assume a: "key \<noteq> ''version'' \<and> self key = Some (PDict d) \<and> \<not> py_eq (PDict d) (PDict d2)
        \<and> distinct (map (norm \<circ> fst) d2)"
    with C have "update_attributes B self ((key, PDict d2) # kwargs)
               = update_attributes B (self(key \<mapsto> PDict (dict_put_all d d2))) kwargs" by simp
    moreover have "dict_map (dict_put_all d d2) = dict_map d ++ dict_map d2"
      using a dict_map_put_all[of d2 d] by simp
    ultimately show "\<exists>d'. update_attributes B self ((key, PDict d2) # kwargs)
               = update_attributes B (self(key \<mapsto> PDict d')) kwargs
            \<and> dict_map d' = dict_map d ++ dict_map d2" by blast
  next
    assume "key \<noteq> ''version'' \<and> self key = Some (PSet ss) \<and> \<not> py_eq (PSet ss) (PSet zs)"
    with C have "update_attributes B self ((key, PSet zs) # kwargs)
               = update_attributes B (self(key \<mapsto> PSet (foldl set_add ss zs))) kwargs" by simp
    then show "\<exists>xs'. update_attributes B self ((key, PSet zs) # kwargs)
               = update_attributes B (self(key \<mapsto> PSet xs')) kwargs
            \<and> norm ` set xs' = norm ` set ss \<union> norm ` set zs"
      using set_add_all[of ss zs] by blast
  next
    assume "key \<noteq> ''version'' \<and> self key = Some (Sc (PStr t)) \<and> \<not> py_eq (Sc (PStr t)) new
        \<and> new \<noteq> Sc PNone"
    with C show "update_attributes B self ((key, new) # kwargs)
        = update_attributes B
            (self(key \<mapsto> PList (ESc (PStr t) # (case new of PList ys \<Rightarrow> ys | Elem e \<Rightarrow> [e]))))
            kwargs" by simp
  qed
qed

lemma dict_neq: "\<not> py_eq (PDict [(PStr ''x'', PStr ''T'')]) (PDict [(PStr ''y'', PStr ''U'')])"
proof
  assume "py_eq (PDict [(PStr ''x'', PStr ''T'')]) (PDict [(PStr ''y'', PStr ''U'')])"
  then have "[PStr ''x'' \<mapsto> PStr ''T''] = [PStr ''y'' \<mapsto> PStr ''U'']"
    by (simp add: elem_eq_def)
  then have "[PStr ''x'' \<mapsto> PStr ''T''] (PStr ''x'') = [PStr ''y'' \<mapsto> PStr ''U''] (PStr ''x'')"
    by (rule arg_cong[where f = "\<lambda>m. m (PStr ''x'')"])
  then show False by simp
qed

theorem update_attributes_merge_semantics_witness:
  "update_attributes example_builtins example_entity [(''package'', Sc (PStr ''pkg''))]
     = Inr (example_entity(''package'' \<mapsto> Sc (PStr ''pkg'')))
   \<and> update_attributes example_builtins example_entity [(''name'', Sc (PStr ''/talker''))]
     = Inr example_entity
   \<and> update_attributes example_builtins example_entity [(''name'', Sc PNone)] = Inr example_entity
   \<and> update_attributes example_builtins example_entity [(''version'', Sc (PInt 1))]
     = Inr (example_entity(''version'' \<mapsto> Sc (PInt 4)))
   \<and> update_attributes example_builtins example_entity [(''nodes'', PList [ESc (PStr ''b'')])]
     = Inr (example_entity(''nodes'' \<mapsto> PList [ESc (PStr ''a''), ESc (PStr ''b'')]))
   \<and> update_attributes example_builtins example_entity [(''nodes'', Sc (PStr ''c''))]
     = Inr (example_entity(''nodes'' \<mapsto> PList [ESc (PStr ''a''), ESc (PStr ''c'')]))
   \<and> (\<exists>d'. update_attributes example_builtins example_entity
              [(''types'', PDict [(PStr ''y'', PStr ''U'')])]
            = Inr (example_entity(''types'' \<mapsto> PDict d'))
          \<and> dict_map d' = dict_map [(PStr ''x'', PStr ''T'')] ++ dict_map [(PStr ''y'', PStr ''U'')])
   \<and> (\<exists>xs'. update_attributes example_builtins example_entity [(''names'', PSet [PStr ''q''])]
            = Inr (example_entity(''names'' \<mapsto> PSet xs'))
          \<and> norm ` set xs' = norm ` set [PStr ''p''] \<union> norm ` set [PStr ''q''])
   \<and> update_attributes example_builtins example_entity [(''source'', Sc (PStr ''ros_snapshot''))]
     = Inr (example_entity(''source'' \<mapsto> PList [ESc (PStr ''spec''), ESc (PStr ''ros_snapshot'')]))"
proof -
  note T = update_attributes_merge_semantics[where self = example_entity and B = example_builtins
      and kwargs = "[]"]
  have 1: "update_attributes example_builtins example_entity [(''package'', Sc (PStr ''pkg''))]
     = Inr (example_entity(''package'' \<mapsto> Sc (PStr ''pkg'')))"
    using T[where key = "''package''" and new = "Sc (PStr ''pkg'')"]
    by (simp add: example_entity_def)
  have 2: "update_attributes example_builtins example_entity [(''name'', Sc (PStr ''/talker''))]
     = Inr example_entity"
    using T[where key = "''name''" and new = "Sc (PStr ''/talker'')" and val = "Sc (PStr ''/talker'')"]
    by (simp add: example_entity_def)
  have 3: "update_attributes example_builtins example_entity [(''name'', Sc PNone)] = Inr example_entity"
    using T[where key = "''name''" and new = "Sc PNone" and val = "Sc (PStr ''/talker'')"]
    by (simp add: example_entity_def)
  have 4: "update_attributes example_builtins example_entity [(''version'', Sc (PInt 1))]
     = Inr (example_entity(''version'' \<mapsto> Sc (PInt 4)))"
    using T[where v = 3 and n = 1]
    by (simp add: example_entity_def)
  have 5: "update_attributes example_builtins example_entity [(''nodes'', PList [ESc (PStr ''b'')])]
     = Inr (example_entity(''nodes'' \<mapsto> PList [ESc (PStr ''a''), ESc (PStr ''b'')]))"
    using T[where key = "''nodes''" and xs = "[ESc (PStr ''a'')]" and ys = "[ESc (PStr ''b'')]"]
    by (simp add: example_entity_def elem_eq_def)
  have 6: "update_attributes example_builtins example_entity [(''nodes'', Sc (PStr ''c''))]
     = Inr (example_entity(''nodes'' \<mapsto> PList [ESc (PStr ''a''), ESc (PStr ''c'')]))"
    using T[where key = "''nodes''" and xs = "[ESc (PStr ''a'')]" and s = "PStr ''c''"]
    by (simp add: example_entity_def elem_eq_def py_in_def)
  have 7: "\<exists>d'. update_attributes example_builtins example_entity
              [(''types'', PDict [(PStr ''y'', PStr ''U'')])]
            = Inr (example_entity(''types'' \<mapsto> PDict d'))
          \<and> dict_map d' = dict_map [(PStr ''x'', PStr ''T'')] ++ dict_map [(PStr ''y'', PStr ''U'')]"
    using T[where key = "''types''" and d = "[(PStr ''x'', PStr ''T'')]"
        and ?d2.0 = "[(PStr ''y'', PStr ''U'')]"] dict_neq
    by (simp add: example_entity_def)
  have 8: "\<exists>xs'. update_attributes example_builtins example_entity [(''names'', PSet [PStr ''q''])]
            = Inr (example_entity(''names'' \<mapsto> PSet xs'))
          \<and> norm ` set xs' = norm ` set [PStr ''p''] \<union> norm ` set [PStr ''q'']"
    using T[where key = "''names''" and ss = "[PStr ''p'']" and zs = "[PStr ''q'']"]
    by (simp add: example_entity_def elem_eq_def)
  have 9: "update_attributes example_builtins example_entity [(''source'', Sc (PStr ''ros_snapshot''))]
     = Inr (example_entity(''source'' \<mapsto> PList [ESc (PStr ''spec''), ESc (PStr ''ros_snapshot'')]))"
    using T[where key = "''source''" and t = "''spec''" and new = "Sc (PStr ''ros_snapshot'')"]
    by (simp add: example_entity_def elem_eq_def)
  from 1 2 3 4 5 6 7 8 9 show ?thesis by blast
qed

lemma update_attribute_frame:
  "update_attribute B self (k, v) = Inr self' \<Longrightarrow> k' \<noteq> k \<Longrightarrow> self' k' = self k'"
  by (auto simp: update_attribute_def Let_def
      split: option.splits if_splits pyval.splits elem.splits scalar.splits sum.splits)

lemma update_attribute_local:
  assumes "self k = other k" "update_attribute B self (k, v) = Inr self'"
  shows "\<exists>other'. update_attribute B other (k, v) = Inr other' \<and> other' k = self' k"
  using assms
  by (auto simp: update_attribute_def Let_def
      split: option.splits if_splits pyval.splits elem.splits scalar.splits sum.splits)

lemma has_key_put: "has_key (dict_put k v d) k' \<longleftrightarrow> has_key d k' \<or> norm k' = norm k"
  by (induction d) (auto simp: has_key_def)

lemma dict_put_same: "dict_put k v (dict_put k v' d) = dict_put k v d"
  by (induction d) auto

lemma dict_put_same_key:
  "norm k = norm k' \<Longrightarrow> has_key d k \<Longrightarrow> dict_put k v (dict_put k' v' d) = dict_put k v d"
  by (induction d) (auto simp: has_key_def)

lemma dict_put_commute:
  "norm k \<noteq> norm k' \<Longrightarrow> has_key d k' \<Longrightarrow>
   dict_put k' w (dict_put k v d) = dict_put k v (dict_put k' w d)"
  by (induction d) (auto simp: has_key_def)

lemma has_key_put_all:
  "has_key (dict_put_all d ps) k' \<longleftrightarrow> has_key d k' \<or> norm k' \<in> (norm \<circ> fst) ` set ps"
  by (induction ps arbitrary: d) (auto simp: dict_put_all_def has_key_put)

lemma dict_put_all_Cons: "dict_put_all d ((k, v) # ps) = dict_put_all (dict_put k v d) ps"
  by (simp add: dict_put_all_def)

lemma dict_put_all_snoc: "dict_put_all d (ps @ [(k, v)]) = dict_put k v (dict_put_all d ps)"
  by (simp add: dict_put_all_def)

lemma dict_put_absorb:
  "\<forall>p \<in> set qs. has_key X (fst p) \<Longrightarrow>
   dict_put k v (dict_put_all (dict_put k v' X) qs) = dict_put k v (dict_put_all X qs)"
proof (induction qs arbitrary: X)
  case Nil
  then show ?case by (simp add: dict_put_all_def dict_put_same)
next
  case (Cons q qs)
  obtain k' w where q: "q = (k', w)" by (cases q)
  have hk: "has_key X k'" using Cons.prems q by simp
  have rest: "\<forall>p \<in> set qs. has_key (dict_put k' w X) (fst p)"
    using Cons.prems by (simp add: has_key_put)
  show ?case
  proof (cases "norm k' = norm k")
    case True
    then have "dict_put k' w (dict_put k v' X) = dict_put k' w X"
      using hk by (simp add: dict_put_same_key)
    then show ?thesis by (simp add: q dict_put_all_Cons)
  next
    case False
    then have "dict_put k' w (dict_put k v' X) = dict_put k v' (dict_put k' w X)"
      using hk dict_put_commute[of k k' X w v'] by simp
    then show ?thesis using Cons.IH[OF rest] by (simp add: q dict_put_all_Cons)
  qed
qed

lemma dict_put_all_idem: "dict_put_all (dict_put_all d ps) ps = dict_put_all d ps"
proof (induction ps rule: rev_induct)
  case Nil
  then show ?case by (simp add: dict_put_all_def)
next
  case (snoc p ps)
  obtain k v where p: "p = (k, v)" by (cases p)
  let ?D' = "dict_put_all d ps"
  have keys: "\<forall>q \<in> set ps. has_key ?D' (fst q)"
    by (auto simp: has_key_put_all)
  have "dict_put_all (dict_put_all d (ps @ [p])) (ps @ [p])
          = dict_put k v (dict_put_all (dict_put k v ?D') ps)"
    by (simp add: p dict_put_all_snoc)
  also have "\<dots> = dict_put k v (dict_put_all ?D' ps)"
    using dict_put_absorb[OF keys] .
  also have "\<dots> = dict_put k v ?D'" using snoc.IH by simp
  finally show ?case by (simp add: p dict_put_all_snoc)
qed

lemma dict_update_idem: "dict_update d new = Inr d' \<Longrightarrow> dict_update d' new = Inr d'"
  by (auto simp: dict_update_def dict_put_all_idem
      split: pyval.splits elem.splits sum.splits)

lemma set_add_present: "norm y \<in> norm ` set xs \<Longrightarrow> set_add xs y = xs"
  by (simp add: set_add_def)

lemma foldl_set_add_present:
  "norm ` set ys \<subseteq> norm ` set xs \<Longrightarrow> foldl set_add xs ys = xs"
  by (induction ys arbitrary: xs) (auto simp: set_add_present)

lemma set_update_idem: "set_update s new = Inr s' \<Longrightarrow> set_update s' new = Inr s'"
  by (auto simp: set_update_def set_add_all foldl_set_add_present split: sum.splits)

lemma py_in_snoc: "py_in e (xs @ [e])"
  by (simp add: py_in_def)

lemma update_attribute_again:
  assumes "k \<noteq> ''version''" "\<not> extends_again self (k, v)"
    and "update_attribute B self (k, v) = Inr s1"
  shows "update_attribute B s1 (k, v) = Inr s1"
proof (cases "self k")
  case None
  then show ?thesis using assms(3) by (simp add: update_attribute_def)
next
  case (Some val)
  show ?thesis
  proof (cases "val = Sc PNone")
    case True
    then have s1: "s1 = self(k \<mapsto> v)" using assms(3) Some by (simp add: update_attribute_def)
    show ?thesis unfolding s1 using assms(1)
      by (auto simp: update_attribute_def Let_def fun_upd_idem_iff)
  next
    case notnone: False
    show ?thesis
    proof (cases "py_eq val v \<or> v = Sc PNone")
      case True
      then have "s1 = self" using assms(1,3) Some notnone
        by (auto simp: update_attribute_def Let_def split: if_splits)
      then show ?thesis using assms(3) by simp
    next
      case False
      then have ne: "\<not> py_eq val v" "v \<noteq> Sc PNone" by auto
      show ?thesis
      proof (cases val)
        case (PList xs)
        show ?thesis
        proof (cases v)
          case (Elem e)
          show ?thesis
          proof (cases "py_in e xs")
            case True
            then have "s1 = self" using assms(1,3) Some notnone ne PList Elem
              by (simp add: update_attribute_def Let_def)
            then show ?thesis using assms(3) by simp
          next
            case False
            then have s1: "s1 = self(k \<mapsto> PList (xs @ [e]))"
              using assms(1,3) Some notnone ne PList Elem
              by (simp add: update_attribute_def Let_def)
            show ?thesis unfolding s1 using assms(1) ne(2) Elem
              by (simp add: update_attribute_def Let_def py_in_snoc)
          qed
        next
          case (PList ys) note v = this
          have "xs = [] \<or> ys = []"
            using assms(2) Some \<open>val = PList xs\<close> v ne(1) by (auto simp: extends_again_def)
          moreover have s1: "s1 = self(k \<mapsto> PList (xs @ ys))"
            using assms(1,3) Some notnone ne \<open>val = PList xs\<close> v
            by (simp add: update_attribute_def Let_def)
          ultimately show ?thesis using assms(1) v
            by (auto simp: update_attribute_def Let_def fun_upd_idem_iff list_all2_same)
        qed
      next
        case (Elem e0)
        show ?thesis
        proof (cases e0)
          case (EDict d)
          then obtain d' where d': "dict_update d v = Inr d'" and s1: "s1 = self(k \<mapsto> PDict d')"
            using assms(1,3) Some notnone ne Elem
            by (auto simp: update_attribute_def Let_def split: sum.splits)
          show ?thesis unfolding s1 using assms(1) ne(2) dict_update_idem[OF d']
            by (auto simp: update_attribute_def Let_def fun_upd_idem_iff)
        next
          case (ESet s)
          then obtain s' where s': "set_update s v = Inr s'" and s1: "s1 = self(k \<mapsto> PSet s')"
            using assms(1,3) Some notnone ne Elem
            by (auto simp: update_attribute_def Let_def split: sum.splits)
          show ?thesis unfolding s1 using assms(1) ne(2) set_update_idem[OF s']
            by (auto simp: update_attribute_def Let_def fun_upd_idem_iff)
        next
          case (ESc sc)
          show ?thesis
          proof (cases sc)
            case (PStr t)
            show ?thesis
            proof (cases v)
              case (Elem e)
              then have "\<not> elem_eq e (ESc (PStr t))"
                using ne(1) \<open>val = Elem e0\<close> ESc PStr elem_eq_sym by auto
              then have s1: "s1 = self(k \<mapsto> PList [ESc (PStr t), e])"
                using assms(1,3) Some notnone ne \<open>val = Elem e0\<close> ESc PStr Elem
                by (simp add: update_attribute_def Let_def py_in_def)
              show ?thesis unfolding s1 using assms(1) ne(2) Elem
                by (simp add: update_attribute_def Let_def py_in_def)
            next
              case (PList ys)
              then have y: "ys = []"
                using assms(2) Some \<open>val = Elem e0\<close> ESc PStr by (auto simp: extends_again_def)
              have s1: "s1 = self(k \<mapsto> PList [ESc (PStr t)])"
                using assms(1,3) Some notnone ne \<open>val = Elem e0\<close> ESc PStr PList y
                by (simp add: update_attribute_def Let_def)
              show ?thesis unfolding s1 using assms(1) PList y
                by (simp add: update_attribute_def Let_def)
            qed
          next
            case PNone
            then show ?thesis using notnone Elem ESc by simp
          next
            case (PBool b)
            then have s1: "s1 = self(k \<mapsto> v)"
              using assms(1,3) Some notnone ne Elem ESc
              by (simp add: update_attribute_def Let_def)
            show ?thesis unfolding s1 using assms(1) ne(2)
              by (auto simp: update_attribute_def Let_def fun_upd_idem_iff)
          next
            case (PInt i)
            then have s1: "s1 = self(k \<mapsto> v)"
              using assms(1,3) Some notnone ne Elem ESc
              by (simp add: update_attribute_def Let_def)
            show ?thesis unfolding s1 using assms(1) ne(2)
              by (auto simp: update_attribute_def Let_def fun_upd_idem_iff)
          qed
        qed
      qed
    qed
  qed
qed

lemma update_attribute_version_total:
  "s1 ''version'' \<noteq> None \<Longrightarrow> \<exists>s2. update_attribute B s1 (''version'', v) = Inr s2"
  by (auto simp: update_attribute_def Let_def split: option.splits)

lemma update_attributes_frame:
  "update_attributes B self kw = Inr s1 \<Longrightarrow> k \<notin> fst ` set kw \<Longrightarrow> s1 k = self k"
proof (induction kw arbitrary: self)
  case Nil
  then show ?case by simp
next
  case (Cons kv kw)
  obtain k0 v0 where kv: "kv = (k0, v0)" by (cases kv)
  from Cons.prems(1) obtain s' where
    s': "update_attribute B self (k0, v0) = Inr s'" and r: "update_attributes B s' kw = Inr s1"
    by (auto simp: kv split: sum.splits)
  have "s1 k = s' k" using Cons.IH[OF r] Cons.prems(2) by simp
  moreover have "s' k = self k"
    using update_attribute_frame[OF s', of k] Cons.prems(2) kv by auto
  ultimately show ?case by simp
qed

lemma update_attributes_at_key:
  "distinct (map fst kw) \<Longrightarrow> (k, v) \<in> set kw \<Longrightarrow> update_attributes B self kw = Inr s1 \<Longrightarrow>
   \<exists>r. update_attribute B self (k, v) = Inr r \<and> r k = s1 k"
proof (induction kw arbitrary: self)
  case Nil
  then show ?case by simp
next
  case (Cons kv kw)
  obtain k0 v0 where kv: "kv = (k0, v0)" by (cases kv)
  from Cons.prems(3) obtain s' where
    s': "update_attribute B self (k0, v0) = Inr s'" and r: "update_attributes B s' kw = Inr s1"
    by (auto simp: kv split: sum.splits)
  show ?case
  proof (cases "(k, v) = kv")
    case True
    then have "k \<notin> fst ` set kw" using Cons.prems(1) kv by auto
    then have "s1 k = s' k" using update_attributes_frame[OF r] by simp
    then show ?thesis using s' True kv by auto
  next
    case False
    then have m: "(k, v) \<in> set kw" using Cons.prems(2) by simp
    then have ne: "k \<noteq> k0" using Cons.prems(1) kv by (auto simp: image_iff)
    from Cons.IH[OF _ m r] Cons.prems(1) obtain r' where
      r': "update_attribute B s' (k, v) = Inr r'" "r' k = s1 k" by auto
    have "s' k = self k" using update_attribute_frame[OF s' ne] .
    from update_attribute_local[of s' k self B v r', OF this r'(1)] r'(2) show ?thesis by auto
  qed
qed

lemma extends_again_cong: "s k = t k \<Longrightarrow> extends_again s (k, v) = extends_again t (k, v)"
  by (simp add: extends_again_def split: pyval.splits)

lemma update_attributes_again:
  "distinct (map fst kw) \<Longrightarrow> update_attributes B self kw = Inr self1 \<Longrightarrow>
   \<forall>kv \<in> set kw. fst kv \<noteq> ''version'' \<longrightarrow> \<not> extends_again self kv \<Longrightarrow>
   \<forall>k \<in> fst ` set kw. t k = self1 k \<Longrightarrow>
   \<exists>t'. update_attributes B t kw = Inr t' \<and> (\<forall>k. k \<noteq> ''version'' \<longrightarrow> t' k = t k)
        \<and> (''version'' \<notin> fst ` set kw \<longrightarrow> t' = t)"
proof (induction kw arbitrary: self t)
  case Nil
  then show ?case by simp
next
  case (Cons kv kw)
  obtain k v where kv: "kv = (k, v)" by (cases kv)
  from Cons.prems(2) obtain s' where
    s': "update_attribute B self (k, v) = Inr s'" and r: "update_attributes B s' kw = Inr self1"
    by (auto simp: kv split: sum.splits)
  have knot: "k \<notin> fst ` set kw" using Cons.prems(1) kv by auto
  have d: "distinct (map fst kw)" using Cons.prems(1) by simp
  have tk: "t k = s' k"
    using Cons.prems(4) kv update_attributes_frame[OF r knot] by simp
  have ext: "\<forall>kv \<in> set kw. fst kv \<noteq> ''version'' \<longrightarrow> \<not> extends_again s' kv"
  proof (intro ballI impI)
    fix p assume p: "p \<in> set kw" "fst p \<noteq> ''version''"
    then have "fst p \<noteq> k" using knot by auto
    then have "s' (fst p) = self (fst p)" using update_attribute_frame[OF s'] by simp
    then have "extends_again s' (fst p, snd p) = extends_again self (fst p, snd p)"
      by (rule extends_again_cong)
    then show "\<not> extends_again s' p" using Cons.prems(3) p by simp
  qed
  show ?case
  proof (cases "k = ''version''")
    case False
    have "\<not> extends_again self (k, v)" using Cons.prems(3) kv False by simp
    from update_attribute_again[OF False this s'] have a: "update_attribute B s' (k, v) = Inr s'" .
    from update_attribute_local[of s' k t B v s', OF tk[symmetric] a] obtain t1 where
      t1: "update_attribute B t (k, v) = Inr t1" "t1 k = s' k" by auto
    have "t1 = t"
    proof
      fix x show "t1 x = t x"
        using update_attribute_frame[OF t1(1), of x] t1(2) tk by (cases "x = k") auto
    qed
    with t1 have u: "update_attribute B t (k, v) = Inr t" by simp
    have "\<forall>k \<in> fst ` set kw. t k = self1 k" using Cons.prems(4) by simp
    from Cons.IH[OF d r ext this] obtain t' where
      "update_attributes B t kw = Inr t'" "\<forall>k. k \<noteq> ''version'' \<longrightarrow> t' k = t k"
      "''version'' \<notin> fst ` set kw \<longrightarrow> t' = t" by auto
    then show ?thesis using u kv False by simp
  next
    case True
    have "t ''version'' \<noteq> None"
      using update_attribute_keeps_field[OF s'] tk True by simp
    from update_attribute_version_total[of t B v, OF this] obtain t1 where
      t1: "update_attribute B t (k, v) = Inr t1" using True by auto
    have fr: "\<And>x. x \<noteq> ''version'' \<Longrightarrow> t1 x = t x"
      using update_attribute_frame[OF t1] True by simp
    have "\<forall>k' \<in> fst ` set kw. t1 k' = self1 k'"
    proof
      fix k' assume k': "k' \<in> fst ` set kw"
      then have "k' \<noteq> ''version''" using knot True by metis
      then have "t1 k' = t k'" by (rule fr)
      also have "t k' = self1 k'" using Cons.prems(4) k' by auto
      finally show "t1 k' = self1 k'" .
    qed
    from Cons.IH[OF d r ext this] obtain t' where
      t': "update_attributes B t1 kw = Inr t'" "\<forall>k. k \<noteq> ''version'' \<longrightarrow> t' k = t1 k" by auto
    have 1: "update_attributes B t (kv # kw) = Inr t'" using t1 t'(1) kv by simp
    have 2: "\<forall>x. x \<noteq> ''version'' \<longrightarrow> t' x = t x" using t'(2) fr by simp
    have 3: "''version'' \<in> fst ` set (kv # kw)" using kv True by simp
    from 1 2 3 show ?thesis by blast
  qed
qed

lemma update_attribute_version_value:
  "s ''version'' = Some (Sc (PInt v)) \<Longrightarrow> update_attribute B s (''version'', Sc (PInt n)) = Inr r \<Longrightarrow>
   r ''version'' = Some (Sc (PInt (max v n + 1)))"
  by (auto simp: update_attribute_def Let_def)

text \<open>Claim C8, amended. Let a call with keyword arguments, each name once, return, and let no
  argument other than \<open>version\<close> be a non-empty list for an attribute that holds a string or
  another non-empty list. Then a second call with the same arguments returns and changes no
  attribute other than \<open>version\<close>. Without a \<open>version\<close> argument the version is not
  changed by either call; with an integer \<open>version\<close> argument on an integer version, each
  call sets it to the larger of the two plus one, the first call included.\<close>

theorem update_attributes_twice:
  assumes "distinct (map fst kwargs)"
    and "update_attributes B self kwargs = Inr self1"
    and "\<forall>kv \<in> set kwargs. fst kv \<noteq> ''version'' \<longrightarrow> \<not> extends_again self kv"
  shows "\<exists>self2. update_attributes B self1 kwargs = Inr self2
           \<and> (\<forall>k. k \<noteq> ''version'' \<longrightarrow> self2 k = self1 k)
           \<and> (''version'' \<notin> fst ` set kwargs \<longrightarrow>
                self1 ''version'' = self ''version'' \<and> self2 = self1)
           \<and> (\<forall>v n. self ''version'' = Some (Sc (PInt v))
                  \<and> (''version'', Sc (PInt n)) \<in> set kwargs \<longrightarrow>
                self1 ''version'' = Some (Sc (PInt (max v n + 1)))
                \<and> self2 ''version'' = Some (Sc (PInt (max v n + 2))))"
proof -
  from update_attributes_again[OF assms(1,2,3), of self1] obtain self2 where
    s2: "update_attributes B self1 kwargs = Inr self2"
    and same: "\<forall>k. k \<noteq> ''version'' \<longrightarrow> self2 k = self1 k"
    and nov: "''version'' \<notin> fst ` set kwargs \<longrightarrow> self2 = self1"
    by auto
  have v0: "''version'' \<notin> fst ` set kwargs \<longrightarrow> self1 ''version'' = self ''version''"
    using update_attributes_frame[OF assms(2)] by auto
  have vv: "self1 ''version'' = Some (Sc (PInt (max v n + 1)))
            \<and> self2 ''version'' = Some (Sc (PInt (max v n + 2)))"
    if a: "self ''version'' = Some (Sc (PInt v))" "(''version'', Sc (PInt n)) \<in> set kwargs" for v n
  proof -
    from update_attributes_at_key[OF assms(1) a(2) assms(2)] obtain r where
      r: "update_attribute B self (''version'', Sc (PInt n)) = Inr r" "r ''version'' = self1 ''version''"
      by auto
    from update_attribute_version_value[OF a(1) r(1)] r(2)
    have 1: "self1 ''version'' = Some (Sc (PInt (max v n + 1)))" by simp
    from update_attributes_at_key[OF assms(1) a(2) s2] obtain r2 where
      r2: "update_attribute B self1 (''version'', Sc (PInt n)) = Inr r2"
        "r2 ''version'' = self2 ''version''"
      by auto
    from update_attribute_version_value[OF 1 r2(1)] r2(2)
    have "self2 ''version'' = Some (Sc (PInt (max (max v n + 1) n + 1)))" by simp
    moreover have "max (max v n + 1) n + 1 = max v n + 2" by simp
    ultimately show ?thesis using 1 by simp
  qed
  show ?thesis
  proof (intro exI[of _ self2] conjI allI impI)
    show "update_attributes B self1 kwargs = Inr self2" by (rule s2)
  next
    fix k assume "k \<noteq> ''version''" then show "self2 k = self1 k" using same by simp
  next
    assume "''version'' \<notin> fst ` set kwargs"
    then show "self1 ''version'' = self ''version''" using v0 by simp
  next
    assume "''version'' \<notin> fst ` set kwargs"
    then show "self2 = self1" using nov by simp
  next
    fix v n assume "self ''version'' = Some (Sc (PInt v)) \<and> (''version'', Sc (PInt n)) \<in> set kwargs"
    then show "self1 ''version'' = Some (Sc (PInt (max v n + 1)))" using vv by simp
  next
    fix v n assume "self ''version'' = Some (Sc (PInt v)) \<and> (''version'', Sc (PInt n)) \<in> set kwargs"
    then show "self2 ''version'' = Some (Sc (PInt (max v n + 2)))" using vv by simp
  qed
qed

text \<open>Claim C8, as stated, fails for a list argument on an attribute that holds a list: the
  second call with the same arguments extends the list again. And the call does not pass
  \<open>version\<close>, so the version does not change.\<close>

theorem update_attributes_idempotent_counterexample:
  "update_attributes example_builtins example_entity [(''nodes'', PList [ESc (PStr ''b'')])]
     = Inr (example_entity(''nodes'' \<mapsto> PList [ESc (PStr ''a''), ESc (PStr ''b'')]))
   \<and> update_attributes example_builtins
        (example_entity(''nodes'' \<mapsto> PList [ESc (PStr ''a''), ESc (PStr ''b'')]))
        [(''nodes'', PList [ESc (PStr ''b'')])]
     = Inr (example_entity(''nodes'' \<mapsto> PList [ESc (PStr ''a''), ESc (PStr ''b''), ESc (PStr ''b'')]))
   \<and> (example_entity(''nodes'' \<mapsto> PList [ESc (PStr ''a''), ESc (PStr ''b''), ESc (PStr ''b'')])) ''nodes''
       \<noteq> (example_entity(''nodes'' \<mapsto> PList [ESc (PStr ''a''), ESc (PStr ''b'')])) ''nodes''
   \<and> (example_entity(''nodes'' \<mapsto> PList [ESc (PStr ''a''), ESc (PStr ''b''), ESc (PStr ''b'')])) ''version''
       = example_entity ''version''"
  by (simp add: update_attribute_def Let_def example_entity_def elem_eq_def)

lemma example_maps_differ:
  "[PStr ''x'' \<mapsto> PStr ''T''] \<noteq> [PStr ''y'' \<mapsto> PStr ''U'']"
proof
  assume "[PStr ''x'' \<mapsto> PStr ''T''] = [PStr ''y'' \<mapsto> PStr ''U'']"
  then have "[PStr ''x'' \<mapsto> PStr ''T''] (PStr ''x'') = [PStr ''y'' \<mapsto> PStr ''U''] (PStr ''x'')"
    by (rule arg_cong[where f = "\<lambda>m. m (PStr ''x'')"])
  then show False by simp
qed

lemma example_first_call:
  "update_attributes example_builtins example_entity example_kwargs = Inr example_entity_updated"
  by (simp add: example_kwargs_def example_entity_updated_def update_attribute_def Let_def
      example_entity_def elem_eq_def py_in_def example_maps_differ
      dict_update_def dict_put_all_def)

theorem update_attributes_twice_witness:
  "distinct (map fst example_kwargs)
   \<and> update_attributes example_builtins example_entity example_kwargs = Inr example_entity_updated
   \<and> (\<exists>self2. update_attributes example_builtins example_entity_updated example_kwargs = Inr self2
         \<and> self2 ''source'' = example_entity_updated ''source''
         \<and> self2 ''types'' = example_entity_updated ''types''
         \<and> self2 ''version'' = Some (Sc (PInt 5)))"
proof -
  have h1: "distinct (map fst example_kwargs)" by (simp add: example_kwargs_def)
  have h3: "\<forall>kv \<in> set example_kwargs. fst kv \<noteq> ''version'' \<longrightarrow> \<not> extends_again example_entity kv"
    by (simp add: example_kwargs_def extends_again_def)
  have v: "example_entity ''version'' = Some (Sc (PInt 3))"
    "(''version'', Sc (PInt 0)) \<in> set example_kwargs"
    by (simp_all add: example_entity_def example_kwargs_def)
  from update_attributes_twice[OF h1 example_first_call h3] obtain self2 where
    s: "update_attributes example_builtins example_entity_updated example_kwargs = Inr self2"
    "\<forall>k. k \<noteq> ''version'' \<longrightarrow> self2 k = example_entity_updated k"
    "\<forall>v n. example_entity ''version'' = Some (Sc (PInt v))
           \<and> (''version'', Sc (PInt n)) \<in> set example_kwargs \<longrightarrow>
         example_entity_updated ''version'' = Some (Sc (PInt (max v n + 1)))
         \<and> self2 ''version'' = Some (Sc (PInt (max v n + 2)))"
    by blast
  from s(3) v have "self2 ''version'' = Some (Sc (PInt (max 3 0 + 2)))" by blast
  then have "self2 ''version'' = Some (Sc (PInt 5))" by simp
  moreover from s(2) have "self2 ''source'' = example_entity_updated ''source''"
    "self2 ''types'' = example_entity_updated ''types''" by simp_all
  ultimately show ?thesis using h1 example_first_call s(1) by blast
qed

section \<open>Theorems on the reconciler\<close>

subsection \<open>Learning the specification of the scenario\<close>

lemma value_type_float: "value_type ''float'' = ''class float''"
  by (simp add: value_type_def strip_def is_space_def)

lemma scenario_lookup:
  "lookup_type scenario_graph PARAMETER ''/bar/thresh'' (parameter_bank scenario_state)
     = Inr (PStr ''class float'', parameter_bank scenario_state)"
  by (simp add: lookup_type_def bank_getitem_def scenario_state_def construct_type_def
      value_type_float EntityBuilder_init_def Let_def)

lemma scenario_parameters:
  "sp ''parameters'' = Some (Sc PNone) \<Longrightarrow>
   learn_category scenario_graph ''parameters'' PARAMETER [''/bar/thresh'']
       (sp, scenario_state\<lparr>specification_update := True\<rparr>)
     = Inr (SpecDict [(''thresh'', PStr ''class float'')], False, sp,
            scenario_state\<lparr>specification_update := True\<rparr>)"
proof -
  have b: "parameter_bank (scenario_state\<lparr>specification_update := True\<rparr>)
             = parameter_bank scenario_state" by simp
  have p: "(scenario_state\<lparr>specification_update := True\<rparr>)
             \<lparr>parameter_bank := parameter_bank scenario_state\<rparr>
           = scenario_state\<lparr>specification_update := True\<rparr>" by simp
  assume "sp ''parameters'' = Some (Sc PNone)"
  then show ?thesis
    by (simp add: learn_category_def spec_category_def update_node_specification_data_def
        scenario_lookup dict_keys_def Let_def p)
qed

lemma scenario_empty:
  "sp attr = Some (Sc PNone) \<Longrightarrow>
   learn_category scenario_graph attr bt [] (sp, st) = Inr (SpecDict [], False, sp, st)"
  by (cases bt) (simp_all add: learn_category_def spec_category_def
      update_node_specification_data_def dict_keys_def)

lemma scenario_update_attributes:
  "update_attributes example_builtins scenario_spec
     [(''validated'', Sc (PBool True)),
      (''source'', Sc (PStr ''ros_snapshot'')),
      (''parameters'', category_value [(''thresh'', PStr ''class float'')]),
      (''action_clients'', category_value []),
      (''action_servers'', category_value []),
      (''published_topics'', category_value []),
      (''subscribed_topics'', category_value []),
      (''services_provided'', category_value []),
      (''version'', Sc (PInt 0))] = Inr scenario_spec_learned"
  by (simp add: update_attribute_def Let_def scenario_spec_def scenario_spec_learned_def
      category_value_def elem_eq_def)

text \<open>Claim C2. In the second end-to-end scenario (node \<open>/bar\<close> observed with the one
  parameter \<open>/bar/thresh\<close> whose value is a float, against an unvalidated specification with no
  category set) \<open>_update_node_specification\<close> returns normally, marks the specification
  validated and records the parameter under its last token \<open>thresh\<close>, with the type string that
  \<open>ParameterBuilder.value_type\<close> computes for a float: \<open>class float\<close>, not \<open>float\<close>.\<close>

theorem learned_parameter_type_is_class_float:
  "update_node_specification scenario_graph example_builtins scenario_spec scenario_node
     scenario_state
     = Inr (scenario_spec_learned, [(INFO, ''Updating node specification'')],
            scenario_state\<lparr>specification_update := True\<rparr>)
   \<and> scenario_spec_learned ''parameters'' = Some (PDict [(PStr ''thresh'', PStr ''class float'')])
   \<and> scenario_spec_learned ''validated'' = Some (Sc (PBool True))"
proof -
  have a: "\<And>attr. attr \<in> {''parameters'', ''action_clients'', ''action_servers'', ''published_topics'',
      ''subscribed_topics'', ''services_provided''} \<Longrightarrow> scenario_spec attr = Some (Sc PNone)"
    by (auto simp: scenario_spec_def)
  have v: "scenario_spec ''validated'' = Some (Sc (PBool False))"
    by (simp add: scenario_spec_def)
  have l: "scenario_spec_learned ''validated'' = Some (Sc (PBool True))"
    "scenario_spec_learned ''parameters'' = Some (PDict [(PStr ''thresh'', PStr ''class float'')])"
    by (simp_all add: scenario_spec_learned_def)
  have "update_node_specification scenario_graph example_builtins scenario_spec scenario_node
     scenario_state
     = Inr (scenario_spec_learned, [(INFO, ''Updating node specification'')],
            scenario_state\<lparr>specification_update := True\<rparr>)"
    unfolding update_node_specification_def
    by (simp add: v a scenario_node_def scenario_parameters scenario_empty
        scenario_update_attributes l del: update_attributes.simps)
  then show ?thesis using l by simp
qed

subsection \<open>Validating a node: the banks answer the same after a lookup\<close>

lemma bank_getitem_view:
  "bank_getitem cls n bank = Inr (b, bank') \<Longrightarrow>
   (\<forall>m. \<exists>b2 bank2. bank_getitem cls m bank' = Inr (b2, bank2)
        \<and> (\<exists>bank3. bank_getitem cls m bank = Inr (b2, bank3)))"
  by (auto simp: bank_getitem_def add_entity_builder_def split: if_splits option.splits)

lemma lookup_type_view:
  assumes "lookup_type g bt n bank = Inr (t, bank')"
  shows "bank_types g bt bank' = bank_types g bt bank" "bank_types g bt bank n = Inr t"
proof -
  from assms obtain b where gi: "bank_getitem (io_bank_class g bt) n bank = Inr (b, bank')"
    and ct: "construct_type g b = Inr t"
    by (auto simp: lookup_type_def split: sum.splits)
  show "bank_types g bt bank n = Inr t"
    using assms by (simp add: bank_types_def)
  show "bank_types g bt bank' = bank_types g bt bank"
  proof
    fix m
    from bank_getitem_view[OF gi] obtain b2 bank2 bank3 where
      "bank_getitem (io_bank_class g bt) m bank' = Inr (b2, bank2)"
      "bank_getitem (io_bank_class g bt) m bank = Inr (b2, bank3)" by blast
    then show "bank_types g bt bank' m = bank_types g bt bank m"
      by (simp add: bank_types_def lookup_type_def split: sum.splits)
  qed
qed

lemma lookup_type_cong:
  assumes "bank_types g bt b1 = bank_types g bt b2"
  shows "(\<exists>e. lookup_type g bt n b1 = Inl e \<and> lookup_type g bt n b2 = Inl e)
       \<or> (\<exists>t b1' b2'. lookup_type g bt n b1 = Inr (t, b1') \<and> lookup_type g bt n b2 = Inr (t, b2')
            \<and> bank_types g bt b1' = bank_types g bt b2')"
proof (cases "lookup_type g bt n b1")
  case (Inl e)
  then have "bank_types g bt b1 n = Inl e" by (simp add: bank_types_def)
  then have "bank_types g bt b2 n = Inl e" using assms by simp
  then have "lookup_type g bt n b2 = Inl e"
    by (auto simp: bank_types_def split: sum.splits)
  then show ?thesis using Inl by simp
next
  case (Inr p)
  obtain t b1' where p: "p = (t, b1')" by (cases p)
  then have 1: "lookup_type g bt n b1 = Inr (t, b1')" using Inr by simp
  then have "bank_types g bt b2 n = Inr t" using assms lookup_type_view(2)[OF 1] by simp
  then obtain b2' where 2: "lookup_type g bt n b2 = Inr (t, b2')"
    by (auto simp: bank_types_def split: sum.splits)
  have "bank_types g bt b1' = bank_types g bt b2'"
    using lookup_type_view(1)[OF 1] lookup_type_view(1)[OF 2] assms by simp
  then show ?thesis using 1 2 by blast
qed

lemma match_names_step:
  "match_names g bt node_name spec (io_name # rest) (av, v, lg, bank) =
     (case lookup_type g bt io_name bank of
        Inl e \<Rightarrow> Inl e
      | Inr (io_type, bank') \<Rightarrow>
          (case name_step node_name spec io_name io_type (av, v, lg) of
             Inl e \<Rightarrow> Inl e
           | Inr (av', v', lg') \<Rightarrow> match_names g bt node_name spec rest (av', v', lg', bank')))"
  by (simp add: name_step_def Let_def split: sum.splits option.splits bool.splits)

lemma first_type_match_mem:
  "first_type_match spec t tests = Inr (Some test) \<Longrightarrow> test \<in> set tests"
  by (induction tests) (auto split: sum.splits if_splits)

lemma name_step_valid:
  assumes "name_step node_name spec io_name t (av, v, lg) = Inr (av', v', lg')"
  shows "v' \<longrightarrow> v \<and> lg' = lg \<and> (\<exists>tok \<in> set av. av' = removeAll tok av)"
  using assms
  by (auto simp: name_step_def Let_def split: sum.splits option.splits bool.splits if_splits
      dest!: first_type_match_mem)

lemma removeAll_distinct_length:
  "distinct av \<Longrightarrow> tok \<in> set av \<Longrightarrow> length (removeAll tok av) + 1 = length av"
  by (simp add: distinct_remove1_removeAll[symmetric] length_remove1)
   (metis One_nat_def Suc_pred length_pos_if_in_set)

lemma match_names_valid:
  "match_names g bt node_name spec names (av, v, lg, bank) = Inr (av', v', lg', bank') \<Longrightarrow> v' \<Longrightarrow>
   v \<and> lg' = lg \<and> (distinct av \<longrightarrow> length av' + length names = length av)"
proof (induction names arbitrary: av v lg bank)
  case Nil
  then show ?case by simp
next
  case (Cons io_name rest)
  from Cons.prems(1) obtain t b1 av1 v1 lg1 where
    l: "lookup_type g bt io_name bank = Inr (t, b1)"
    and s: "name_step node_name spec io_name t (av, v, lg) = Inr (av1, v1, lg1)"
    and r: "match_names g bt node_name spec rest (av1, v1, lg1, b1) = Inr (av', v', lg', bank')"
    by (auto simp: match_names_step simp del: match_names.simps split: sum.splits prod.splits)
  from Cons.IH[OF r Cons.prems(2)] have
    i: "v1" "lg' = lg1" "distinct av1 \<longrightarrow> length av' + length rest = length av1" by simp_all
  from name_step_valid[OF s] i(1) obtain tok where
    n: "v" "lg1 = lg" "tok \<in> set av" "av1 = removeAll tok av" by blast
  have "distinct av \<longrightarrow> length av' + length (io_name # rest) = length av"
  proof
    assume d: "distinct av"
    then have "distinct av1" using n(4) by (simp add: distinct_removeAll)
    with i(3) have "length av' + length rest = length av1" by simp
    moreover have "length av1 + 1 = length av"
      using removeAll_distinct_length[OF d n(3)] n(4) by simp
    ultimately show "length av' + length (io_name # rest) = length av" by simp
  qed
  with n i show ?case by simp
qed

lemma match_names_types:
  "match_names g bt node_name spec names (av, v, lg, bank) = Inr (av', v', lg', bank') \<Longrightarrow>
   bank_types g bt bank' = bank_types g bt bank"
proof (induction names arbitrary: av v lg bank)
  case Nil
  then show ?case by simp
next
  case (Cons io_name rest)
  from Cons.prems(1) obtain t b1 av1 v1 lg1 where
    l: "lookup_type g bt io_name bank = Inr (t, b1)"
    and r: "match_names g bt node_name spec rest (av1, v1, lg1, b1) = Inr (av', v', lg', bank')"
    by (auto simp: match_names_step simp del: match_names.simps split: sum.splits prod.splits)
  from Cons.IH[OF r] lookup_type_view(1)[OF l] show ?case by simp
qed

lemma match_names_cong:
  assumes "bank_types g bt b1 = bank_types g bt b2"
  shows "(\<exists>e. match_names g bt node_name spec names (av, v, lg, b1) = Inl e
            \<and> match_names g bt node_name spec names (av, v, lg, b2) = Inl e)
       \<or> (\<exists>av' v' lg' b1' b2'.
             match_names g bt node_name spec names (av, v, lg, b1) = Inr (av', v', lg', b1')
           \<and> match_names g bt node_name spec names (av, v, lg, b2) = Inr (av', v', lg', b2'))"
  using assms
proof (induction names arbitrary: av v lg b1 b2)
  case Nil
  then show ?case by simp
next
  case (Cons io_name rest)
  from lookup_type_cong[OF Cons.prems, of io_name]
  consider (err) e where "lookup_type g bt io_name b1 = Inl e" "lookup_type g bt io_name b2 = Inl e"
    | (ok) t b1' b2' where "lookup_type g bt io_name b1 = Inr (t, b1')"
        "lookup_type g bt io_name b2 = Inr (t, b2')" "bank_types g bt b1' = bank_types g bt b2'"
    by blast
  then show ?case
  proof cases
    case err
    then show ?thesis by (simp add: match_names_step del: match_names.simps)
  next
    case ok
    show ?thesis
    proof (cases "name_step node_name spec io_name t (av, v, lg)")
      case (Inl e)
      then show ?thesis using ok by (simp add: match_names_step del: match_names.simps)
    next
      case (Inr p)
      obtain av1 v1 lg1 where p: "p = (av1, v1, lg1)" by (cases p)
      from Cons.IH[OF ok(3), of av1 v1 lg1] show ?thesis
        using ok Inr p by (simp add: match_names_step del: match_names.simps)
    qed
  qed
qed

lemma match_token_types_cong:
  assumes "bank_types g bt b1 = bank_types g bt b2"
  shows "(match_token_types g bt node_name names b1 (Some spec) = Inl SystemExit
          \<and> match_token_types g bt node_name names b2 (Some spec) = Inl SystemExit)
       \<or> (\<exists>v lg b1' b2'.
             match_token_types g bt node_name names b1 (Some spec) = Inr (PBool v, lg, b1')
           \<and> match_token_types g bt node_name names b2 (Some spec) = Inr (PBool v, lg, b2')
           \<and> bank_types g bt b1' = bank_types g bt b1
           \<and> (v \<longrightarrow> lg = []))"
proof -
  let ?m = "\<lambda>b. match_names g bt node_name spec (sort names) (spec_keys spec, True, [], b)"
  from match_names_cong[OF assms, of node_name spec "sort names" "spec_keys spec" True "[]"]
  consider (err) e where "?m b1 = Inl e" "?m b2 = Inl e"
    | (ok) av' v' lg' b1' b2' where "?m b1 = Inr (av', v', lg', b1')" "?m b2 = Inr (av', v', lg', b2')"
    by blast
  then show ?thesis
  proof cases
    case err
    then show ?thesis by (simp add: match_token_types_def)
  next
    case ok
    have "bank_types g bt b1' = bank_types g bt b1" by (rule match_names_types[OF ok(1)])
    moreover have "v' \<longrightarrow> lg' = []" using match_names_valid[OF ok(1)] by simp
    ultimately show ?thesis using ok by (simp add: match_token_types_def)
  qed
qed

lemma get_put_bank_builder:
  "get_bank_builder (put_bank_builder bt b st) bt' = (if bt' = bt then b else get_bank_builder st bt')"
  by (cases bt; cases bt') simp_all

lemma same_types_put:
  assumes "same_types g sti st" "bank_types g bt b = bank_types g bt (get_bank_builder sti bt)"
  shows "same_types g (put_bank_builder bt b sti) st"
  using assms by (simp add: same_types_def get_put_bank_builder)

lemma same_types_refl: "same_types g st st"
  by (simp add: same_types_def)

lemma and_matches_char:
  assumes "same_types g sti st"
  shows "(bv \<and> categories_exit g node_name st cs \<longrightarrow>
            and_matches g node_name cs (PBool bv, lg, sti) = Inl SystemExit)
       \<and> (\<not> (bv \<and> categories_exit g node_name st cs) \<longrightarrow>
            (\<exists>st'. and_matches g node_name cs (PBool bv, lg, sti)
               = Inr (PBool (bv \<and> (\<forall>c\<in>set cs. category_matches g node_name st c)),
                      lg @ (if bv then first_failure_log g node_name st cs else []), st')
             \<and> same_types g st' st))"
  using assms
proof (induction cs arbitrary: bv lg sti)
  case Nil
  then show ?case by auto
next
  case (Cons c cs)
  obtain bt names spec where c: "c = (bt, names, spec)" by (cases c)
  show ?case
  proof (cases bv)
    case False
    have "and_match g node_name bt names (Inr (Some (SpecDict spec))) (PBool bv, lg, sti)
            = Inr (PBool False, lg, sti)"
      using False by (simp add: and_match_def)
    with Cons.IH[OF Cons.prems, of False lg] show ?thesis using False c by simp
  next
    case True
    have t: "bank_types g bt (get_bank_builder sti bt) = bank_types g bt (get_bank_builder st bt)"
      using Cons.prems by (simp add: same_types_def)
    let ?m = "\<lambda>s. match_token_types g bt node_name (list_to_io_dict names)
                     (get_bank_builder s bt) (Some (SpecDict spec))"
    from match_token_types_cong[OF t, of node_name "list_to_io_dict names" "SpecDict spec"]
    consider (err) "?m sti = Inl SystemExit" "?m st = Inl SystemExit"
      | (ok) v l b1' b2' where "?m sti = Inr (PBool v, l, b1')" "?m st = Inr (PBool v, l, b2')"
          "bank_types g bt b1' = bank_types g bt (get_bank_builder sti bt)" "v \<longrightarrow> l = []"
      by blast
    then show ?thesis
    proof cases
      case err
      then have "category_exits g node_name st c" using c by (simp add: category_exits_def)
      then show ?thesis using True c err by (simp add: and_match_def)
    next
      case ok
      have a: "and_match g node_name bt names (Inr (Some (SpecDict spec))) (PBool bv, lg, sti)
                 = Inr (PBool v, lg @ l, put_bank_builder bt b1' sti)"
        using True ok(1) by (simp add: and_match_def)
      have s: "same_types g (put_bank_builder bt b1' sti) st"
        by (rule same_types_put[OF Cons.prems ok(3)])
      have m: "category_matches g node_name st c = v" "category_log g node_name st c = l"
        "\<not> category_exits g node_name st c"
        using ok(2) c by (simp_all add: category_matches_def category_log_def category_exits_def)
      from Cons.IH[OF s, of v "lg @ l"] show ?thesis
        using True c a m ok(4) by (cases v) auto
    qed
  qed
qed

lemma validate_unfold:
  assumes "spec_category node_spec ''parameters'' = Inr (Some (SpecDict params))"
    "spec_category node_spec ''action_clients'' = Inr (Some (SpecDict acs))"
    "spec_category node_spec ''action_servers'' = Inr (Some (SpecDict ass))"
    "spec_category node_spec ''published_topics'' = Inr (Some (SpecDict pubs))"
    "spec_category node_spec ''subscribed_topics'' = Inr (Some (SpecDict subs))"
    "spec_category node_spec ''services_provided'' = Inr (Some (SpecDict srvs))"
  shows "validate_node_builder g node_name nb node_spec st
       = and_matches g node_name (node_categories nb params acs ass pubs subs srvs)
           (PBool (length (parameter_names nb) \<le> length (remdups (map fst params))),
            validating_log node_name nb params, st)"
  unfolding validate_node_builder_def node_categories_def validating_log_def
  by (simp add: assms Let_def not_less split: sum.splits)

lemma category_count:
  assumes "category_matches g node_name st (bt, names, spec)" "distinct names"
  shows "length names \<le> length (remdups (map fst spec))"
proof -
  from assms(1) obtain av' lg' b' where
    "match_names g bt node_name (SpecDict spec) (sort (list_to_io_dict names))
       (remdups (map fst spec), True, [], get_bank_builder st bt) = Inr (av', True, lg', b')"
    by (auto simp: category_matches_def match_token_types_def split: sum.splits)
  from match_names_valid[OF this]
  have "length av' + length (sort (list_to_io_dict names)) = length (remdups (map fst spec))"
    by simp
  then show ?thesis using assms(2) by (simp add: list_to_io_dict_def distinct_remdups_id)
qed

lemma category_no_entries:
  assumes "names \<noteq> []"
  shows "\<not> category_matches g node_name st (bt, names, [])"
proof
  assume "category_matches g node_name st (bt, names, [])"
  then obtain av' lg' b' where
    "match_names g bt node_name (SpecDict []) (sort (list_to_io_dict names))
       ([], True, [], get_bank_builder st bt) = Inr (av', True, lg', b')"
    by (auto simp: category_matches_def match_token_types_def split: sum.splits)
  from match_names_valid[OF this]
  have "length (sort (list_to_io_dict names)) = 0" by simp
  then have "set names = {}" by (simp add: list_to_io_dict_def)
  with assms show False by simp
qed

lemma category_no_items: "category_matches g node_name st (bt, [], spec)"
  by (simp add: category_matches_def match_token_types_def list_to_io_dict_def)

lemma category_none:
  "names \<noteq> [] \<Longrightarrow>
   match_token_types g bt node_name (list_to_io_dict names) bank None = Inr (PBool False, [], bank)"
  by (simp add: match_token_types_def list_to_io_dict_def)

subsection \<open>Validating the node of the example\<close>

lemma chatter_lookup:
  "lookup_type chatter_graph TOPIC ''/chat_out'' (topic_bank chatter_state)
     = Inr (PStr ''std_msgs/msg/String'', topic_bank chatter_state)"
  "lookup_type chatter_graph TOPIC ''/chat_in'' (topic_bank chatter_state)
     = Inr (PStr ''std_msgs/msg/String'', topic_bank chatter_state)"
  by (simp_all add: lookup_type_def bank_getitem_def chatter_state_def construct_type_def
      EntityBuilder_init_def Let_def opt_scalar_def)

lemma chatter_empty_categories:
  "spec_category chatter_spec_empty ''parameters'' = Inr (Some (SpecDict []))"
  "spec_category chatter_spec_empty ''action_clients'' = Inr (Some (SpecDict []))"
  "spec_category chatter_spec_empty ''action_servers'' = Inr (Some (SpecDict []))"
  "spec_category chatter_spec_empty ''published_topics'' = Inr (Some (SpecDict []))"
  "spec_category chatter_spec_empty ''subscribed_topics'' = Inr (Some (SpecDict []))"
  "spec_category chatter_spec_empty ''services_provided'' = Inr (Some (SpecDict []))"
  by (simp_all add: spec_category_def chatter_spec_empty_def)

lemma chatter_categories:
  "spec_category chatter_spec ''parameters'' = Inr (Some (SpecDict []))"
  "spec_category chatter_spec ''action_clients'' = Inr (Some (SpecDict []))"
  "spec_category chatter_spec ''action_servers'' = Inr (Some (SpecDict []))"
  "spec_category chatter_spec ''published_topics''
     = Inr (Some (SpecDict [(''chat_out'', PStr ''std_msgs/msg/String'')]))"
  "spec_category chatter_spec ''subscribed_topics''
     = Inr (Some (SpecDict [(''chat_in'', PStr ''std_msgs/msg/String'')]))"
  "spec_category chatter_spec ''services_provided'' = Inr (Some (SpecDict []))"
  by (simp_all add: spec_category_def chatter_spec_def chatter_spec_empty_def)

lemma chatter_no_names:
  "match_token_types chatter_graph bt ''/foo'' (list_to_io_dict []) bank (Some spec)
     = Inr (PBool True, [], bank)"
  by (simp add: match_token_types_def list_to_io_dict_def)

lemma chatter_unmatched:
  "match_token_types chatter_graph TOPIC ''/foo'' (list_to_io_dict [''/chat_out''])
       (topic_bank chatter_state) (Some (SpecDict []))
     = Inr (PBool False, [unmatched_message ''/foo'' ''/chat_out''], topic_bank chatter_state)"
  "match_token_types chatter_graph TOPIC ''/foo'' (list_to_io_dict [''/chat_in''])
       (topic_bank chatter_state) (Some (SpecDict []))
     = Inr (PBool False, [unmatched_message ''/foo'' ''/chat_in''], topic_bank chatter_state)"
  by (simp_all add: match_token_types_def list_to_io_dict_def chatter_lookup Let_def)

lemma chatter_matched:
  "match_token_types chatter_graph TOPIC ''/foo'' (list_to_io_dict [''/chat_out''])
       (topic_bank chatter_state) (Some (SpecDict [(''chat_out'', PStr ''std_msgs/msg/String'')]))
     = Inr (PBool True, [], topic_bank chatter_state)"
  "match_token_types chatter_graph TOPIC ''/foo'' (list_to_io_dict [''/chat_in''])
       (topic_bank chatter_state) (Some (SpecDict [(''chat_in'', PStr ''std_msgs/msg/String'')]))
     = Inr (PBool True, [], topic_bank chatter_state)"
  by (simp_all add: match_token_types_def list_to_io_dict_def chatter_lookup Let_def)

lemma chatter_put:
  "put_bank_builder bt (get_bank_builder chatter_state bt) chatter_state = chatter_state"
  by (cases bt) simp_all

lemma chatter_validate_empty:
  "validate_node_builder chatter_graph ''/foo'' chatter_node chatter_spec_empty chatter_state
     = Inr (PBool False,
            [(DEBUG, ''Validating Node /foo ...''), unmatched_message ''/foo'' ''/chat_out''],
            chatter_state)"
proof -
  have p: "\<And>bt. put_bank_builder bt (get_bank_builder chatter_state bt) chatter_state = chatter_state"
    by (rule chatter_put)
  have n: "parameter_names chatter_node = []" "action_clients chatter_node = []"
    "action_servers chatter_node = []" "published_topic_names chatter_node = [''/chat_out'']"
    "subscribed_topic_names chatter_node = [''/chat_in'']"
    "service_names_with_remap chatter_node = []"
    by (simp_all add: chatter_node_def)
  have m: "match_token_types chatter_graph TOPIC ''/foo'' (list_to_io_dict [''/chat_out''])
       (get_bank_builder chatter_state TOPIC) (Some (SpecDict []))
     = Inr (PBool False, [unmatched_message ''/foo'' ''/chat_out''],
            get_bank_builder chatter_state TOPIC)"
    using chatter_unmatched(1) by simp
  show ?thesis
    unfolding validate_node_builder_def
    by (simp add: chatter_empty_categories n and_match_def chatter_no_names m p
        del: get_bank_builder.simps put_bank_builder.simps)
qed

subsection \<open>What a category that matches, and one that does not, say about the names\<close>

lemma first_type_match_some:
  "first_type_match spec ty tests = Inr (Some test) \<Longrightarrow>
   test \<in> set tests \<and> (\<exists>t. spec_index spec test = Inr t \<and> norm t = norm ty)"
  by (induction tests) (auto split: sum.splits if_splits)

lemma name_step_token:
  assumes "name_step node_name spec io_name ty (av, v, lg) = Inr (av', v', lg')" "v'"
  shows "\<exists>tok \<in> set av. av' = removeAll tok av \<and> (\<exists>t. spec_index spec tok = Inr t \<and> norm t = norm ty)"
proof -
  let ?token = "last (split_on CHR ''/'' io_name)"
  let ?potential = "filter (\<lambda>ss. str_in ?token ss) av"
  let ?remaining = "filter (\<lambda>ss. ss \<notin> set ?potential) av"
  have found: "\<exists>tok \<in> set av. removeAll test av = removeAll tok av
                 \<and> (\<exists>t. spec_index spec tok = Inr t \<and> norm t = norm ty)"
    if "first_type_match spec ty (sort xs) = Inr (Some test)" "set xs \<subseteq> set av" for xs test
    using first_type_match_some[OF that(1)] that(2) by auto
  have p: "set ?potential \<subseteq> set av" "set ?remaining \<subseteq> set av" by auto
  show ?thesis
  proof (cases "?token \<notin> set av \<or> (\<exists>t. spec_index spec ?token = Inr t \<and> norm ty \<noteq> norm t)")
    case True
    then have c: "(if ?token \<notin> set av then Inr True
               else (case spec_index spec ?token of Inl e \<Rightarrow> Inl e
                     | Inr t \<Rightarrow> Inr (norm ty \<noteq> norm t))) = (Inr True :: py_error + bool)"
      by auto
    show ?thesis
    proof (cases "first_type_match spec ty (sort ?potential)")
      case (Inl e)
      then show ?thesis using assms(1) c by (simp add: name_step_def Let_def)
    next
      case (Inr r)
      show ?thesis
      proof (cases r)
        case (Some test)
        then have "av' = removeAll test av" using assms(1) c Inr
          by (simp add: name_step_def Let_def)
        then show ?thesis using found[OF _ p(1), of test] Inr Some by simp
      next
        case None
        show ?thesis
        proof (cases "first_type_match spec ty (sort ?remaining)")
          case (Inl e)
          then show ?thesis using assms(1) c Inr None by (simp add: name_step_def Let_def)
        next
          case (Inr r2)
          show ?thesis
          proof (cases r2)
            case (Some test)
            then have "av' = removeAll test av"
              using assms(1) c \<open>first_type_match spec ty (sort ?potential) = Inr r\<close> None Inr
              by (simp add: name_step_def Let_def)
            then show ?thesis using found[OF _ p(2), of test] Inr Some by simp
          next
            case None
            then show ?thesis
              using assms c \<open>first_type_match spec ty (sort ?potential) = Inr r\<close>
                \<open>r = None\<close> Inr
              by (simp add: name_step_def Let_def)
          qed
        qed
      qed
    qed
  next
    case False
    then have in_av: "?token \<in> set av" by simp
    show ?thesis
    proof (cases "spec_index spec ?token")
      case (Inl e)
      then show ?thesis using assms(1) in_av by (simp add: name_step_def Let_def)
    next
      case (Inr t)
      then have eq: "norm ty = norm t" using False by simp
      then have "av' = removeAll ?token av" using assms(1) in_av Inr
        by (simp add: name_step_def Let_def)
      then show ?thesis using in_av Inr eq by auto
    qed
  qed
qed

lemma name_step_log:
  assumes "name_step node_name spec io_name ty (av, v, lg) = Inr (av', v', lg')"
  shows "(v' = v \<and> lg' = lg) \<or> (\<not> v' \<and> lg' = lg @ [unmatched_message node_name io_name])"
  using assms
  by (auto simp: name_step_def Let_def split: sum.splits option.splits bool.splits if_splits)

lemma match_names_assignment:
  "match_names g bt node_name spec names (av, v, lg, bank) = Inr (av', v', lg', bank') \<Longrightarrow> v' \<Longrightarrow>
   distinct av \<Longrightarrow>
   \<exists>toks. distinct toks \<and> set toks \<subseteq> set av
        \<and> list_all2 (\<lambda>n tok. \<exists>t ty. spec_index spec tok = Inr t
                          \<and> bank_types g bt bank n = Inr ty \<and> norm t = norm ty) names toks"
proof (induction names arbitrary: av v lg bank)
  case Nil
  then show ?case by simp
next
  case (Cons io_name rest)
  from Cons.prems(1) obtain ty b1 av1 v1 lg1 where
    l: "lookup_type g bt io_name bank = Inr (ty, b1)"
    and s: "name_step node_name spec io_name ty (av, v, lg) = Inr (av1, v1, lg1)"
    and r: "match_names g bt node_name spec rest (av1, v1, lg1, b1) = Inr (av', v', lg', bank')"
    by (auto simp: match_names_step simp del: match_names.simps split: sum.splits prod.splits)
  have v1: "v1" using match_names_valid[OF r Cons.prems(2)] by simp
  from name_step_token[OF s v1] obtain tok t where
    tok: "tok \<in> set av" "av1 = removeAll tok av" "spec_index spec tok = Inr t" "norm t = norm ty"
    by blast
  have d1: "distinct av1" using Cons.prems(3) tok(2) by (simp add: distinct_removeAll)
  from Cons.IH[OF r Cons.prems(2) d1] obtain toks where
    toks: "distinct toks" "set toks \<subseteq> set av1"
      "list_all2 (\<lambda>n tok. \<exists>t ty. spec_index spec tok = Inr t
                          \<and> bank_types g bt b1 n = Inr ty \<and> norm t = norm ty) rest toks"
    by blast
  have bt: "bank_types g bt b1 = bank_types g bt bank" "bank_types g bt bank io_name = Inr ty"
    using lookup_type_view[OF l] by simp_all
  have "distinct (tok # toks)" using toks(1,2) tok(2) by auto
  moreover have "set (tok # toks) \<subseteq> set av" using toks(2) tok(1,2) by auto
  moreover have "list_all2 (\<lambda>n tok. \<exists>t ty. spec_index spec tok = Inr t
                          \<and> bank_types g bt bank n = Inr ty \<and> norm t = norm ty)
                   (io_name # rest) (tok # toks)"
    using toks(3) bt tok(3,4) by auto
  ultimately show ?case by blast
qed

lemma match_names_log:
  "match_names g bt node_name spec names (av, v, lg, bank) = Inr (av', v', lg', bank') \<Longrightarrow>
   set lg \<subseteq> set lg' \<and> (v \<and> \<not> v' \<longrightarrow> (\<exists>n \<in> set names. unmatched_message node_name n \<in> set lg'))"
proof (induction names arbitrary: av v lg bank)
  case Nil
  then show ?case by simp
next
  case (Cons io_name rest)
  from Cons.prems(1) obtain ty b1 av1 v1 lg1 where
    s: "name_step node_name spec io_name ty (av, v, lg) = Inr (av1, v1, lg1)"
    and r: "match_names g bt node_name spec rest (av1, v1, lg1, b1) = Inr (av', v', lg', bank')"
    by (auto simp: match_names_step simp del: match_names.simps split: sum.splits prod.splits)
  from Cons.IH[OF r] have i: "set lg1 \<subseteq> set lg'"
    "v1 \<and> \<not> v' \<longrightarrow> (\<exists>n \<in> set rest. unmatched_message node_name n \<in> set lg')" by simp_all
  from name_step_log[OF s] i show ?case by auto
qed

lemma exists_map:
  "distinct xs \<Longrightarrow> length xs = length ys \<Longrightarrow> \<exists>f. map f xs = ys"
proof (induction xs arbitrary: ys)
  case Nil
  then show ?case by simp
next
  case (Cons x xs)
  then obtain y ys' where ys: "ys = y # ys'" by (cases ys) auto
  with Cons obtain f where f: "map f xs = ys'" by auto
  have "map (f(x := y)) (x # xs) = ys"
    using f ys Cons.prems(1) by (auto simp: map_eq_conv[symmetric] intro: map_cong)
  then show ?case by blast
qed

lemma category_assignment:
  assumes "category_matches g node_name st (bt, names, spec)"
  shows "\<exists>f. typed_assignment g st (bt, names, spec) f"
proof -
  let ?ns = "sort (list_to_io_dict names)"
  let ?P = "\<lambda>n tok. \<exists>t ty. spec_index (SpecDict spec) tok = Inr t
                \<and> bank_types g bt (get_bank_builder st bt) n = Inr ty \<and> norm t = norm ty"
  from assms obtain av' lg' b' where
    m: "match_names g bt node_name (SpecDict spec) ?ns
       (remdups (map fst spec), True, [], get_bank_builder st bt) = Inr (av', True, lg', b')"
    by (auto simp: category_matches_def match_token_types_def split: sum.splits)
  from match_names_assignment[OF m] obtain toks where
    toks: "distinct toks" "list_all2 ?P ?ns toks" by auto
  have dn: "distinct ?ns" by (simp add: list_to_io_dict_def)
  have len: "length ?ns = length toks" using toks(2) by (rule list_all2_lengthD)
  from exists_map[OF dn len] obtain f where f: "map f ?ns = toks" by blast
  have sn: "set ?ns = set names" by (simp add: list_to_io_dict_def)
  have "distinct (map f ?ns)" using toks(1) f by simp
  then have "inj_on f (set ?ns)" by (rule distinct_map[THEN iffD1, THEN conjunct2])
  then have 1: "inj_on f (set names)" using sn by simp
  have "list_all2 ?P ?ns (map f ?ns)" using toks(2) f by simp
  then have "\<forall>n \<in> set ?ns. ?P n (f n)" by (simp add: list_all2_map2 list_all2_same del: set_sort)
  then have 2: "\<forall>n \<in> set names. ?P n (f n)" using sn by simp
  have 3: "\<forall>n \<in> set names. \<exists>t ty. map_of spec (f n) = Some t
             \<and> bank_types g bt (get_bank_builder st bt) n = Inr ty \<and> norm t = norm ty"
  proof
    fix n assume "n \<in> set names"
    with 2 obtain t ty where "spec_index (SpecDict spec) (f n) = Inr t"
      "bank_types g bt (get_bank_builder st bt) n = Inr ty" "norm t = norm ty" by blast
    moreover from this(1) have "map_of spec (f n) = Some t" by (simp split: option.splits)
    ultimately show "\<exists>t ty. map_of spec (f n) = Some t
             \<and> bank_types g bt (get_bank_builder st bt) n = Inr ty \<and> norm t = norm ty" by blast
  qed
  from 1 3 show ?thesis by (auto simp: typed_assignment_def)
qed

lemma category_unmatched:
  assumes "\<not> category_matches g node_name st (bt, names, spec)"
    "\<not> category_exits g node_name st (bt, names, spec)"
  shows "\<exists>n \<in> set names. unmatched_message node_name n
            \<in> set (category_log g node_name st (bt, names, spec))"
proof -
  from assms obtain av' lg' b' where
    m: "match_names g bt node_name (SpecDict spec) (sort (list_to_io_dict names))
       (remdups (map fst spec), True, [], get_bank_builder st bt) = Inr (av', False, lg', b')"
    by (auto simp: category_matches_def category_exits_def match_token_types_def split: sum.splits)
  then have "category_log g node_name st (bt, names, spec) = lg'"
    by (simp add: category_log_def match_token_types_def)
  moreover from match_names_log[OF m]
  have "\<exists>n \<in> set (sort (list_to_io_dict names)). unmatched_message node_name n \<in> set lg'" by simp
  ultimately show ?thesis by (simp add: list_to_io_dict_def)
qed

subsection \<open>Validation stops at the first category that fails\<close>

text \<open>Claim C1, as stated, fails where it says that after a failure in one category the
  remaining categories are still validated. The node publishes \<open>/chat_out\<close> and subscribes to
  \<open>/chat_in\<close>, and the specification has empty dicts: the published topics fail, the node is
  invalid, and the log ends there. Matching the subscribed topics would have failed too and
  logged \<open>/chat_in\<close> as unmatched, which is not in the log: that category was not
  validated.\<close>

theorem validate_node_builder_skips_counterexample:
  "validate_node_builder chatter_graph ''/foo'' chatter_node chatter_spec_empty chatter_state
     = Inr (PBool False,
            [(DEBUG, ''Validating Node /foo ...''), unmatched_message ''/foo'' ''/chat_out''],
            chatter_state)
   \<and> match_token_types chatter_graph TOPIC ''/foo''
         (list_to_io_dict (subscribed_topic_names chatter_node))
         (get_bank_builder chatter_state TOPIC) (Some (SpecDict []))
     = Inr (PBool False, [unmatched_message ''/foo'' ''/chat_in''], topic_bank chatter_state)
   \<and> unmatched_message ''/foo'' ''/chat_in''
       \<notin> set [(DEBUG, ''Validating Node /foo ...''), unmatched_message ''/foo'' ''/chat_out'']"
proof -
  have "subscribed_topic_names chatter_node = [''/chat_in'']" by (simp add: chatter_node_def)
  then have "match_token_types chatter_graph TOPIC ''/foo''
         (list_to_io_dict (subscribed_topic_names chatter_node))
         (get_bank_builder chatter_state TOPIC) (Some (SpecDict []))
     = Inr (PBool False, [unmatched_message ''/foo'' ''/chat_in''], topic_bank chatter_state)"
    using chatter_unmatched(2) by simp
  moreover have "unmatched_message ''/foo'' ''/chat_in''
       \<notin> set [(DEBUG, ''Validating Node /foo ...''), unmatched_message ''/foo'' ''/chat_out'']"
    by (simp add: unmatched_message_def)
  ultimately show ?thesis using chatter_validate_empty by simp
qed

text \<open>Claim C1, amended. Let the six categories of the specification be dicts. Going through
  the categories in the order of the code (the parameters twice), up to the first that does
  not match: if the node has no more parameters than the specification and one of these
  raises an exception, \<open>_validate_node_builder\<close> ends the program. Otherwise it returns, and
  it returns \<open>True\<close> if and only if the node has no more parameters than the specification
  and every category token-matches its dict in full; the log is that of the first category
  that does not match, with nothing for the categories after it, and the banks answer as
  before. With distinct parameter names the count of the parameters follows from the match.
  A category with observed names and no entries (an empty dict, or \<open>None\<close>) does not match;
  a category with no observed names matches. In a category that matches, every observed
  name has a token of the specification of its own with the type of the name; in one that
  does not, an observed name is logged as unmatched.\<close>

theorem validate_node_builder_first_failure:
  assumes "spec_category node_spec ''parameters'' = Inr (Some (SpecDict params))"
    and "spec_category node_spec ''action_clients'' = Inr (Some (SpecDict acs))"
    and "spec_category node_spec ''action_servers'' = Inr (Some (SpecDict ass))"
    and "spec_category node_spec ''published_topics'' = Inr (Some (SpecDict pubs))"
    and "spec_category node_spec ''subscribed_topics'' = Inr (Some (SpecDict subs))"
    and "spec_category node_spec ''services_provided'' = Inr (Some (SpecDict srvs))"
  shows "(length (parameter_names nb) \<le> length (remdups (map fst params))
          \<and> categories_exit g node_name st (node_categories nb params acs ass pubs subs srvs) \<longrightarrow>
            validate_node_builder g node_name nb node_spec st = Inl SystemExit)
       \<and> (\<not> (length (parameter_names nb) \<le> length (remdups (map fst params))
              \<and> categories_exit g node_name st (node_categories nb params acs ass pubs subs srvs)) \<longrightarrow>
            (\<exists>st'. validate_node_builder g node_name nb node_spec st
               = Inr (PBool (length (parameter_names nb) \<le> length (remdups (map fst params))
                             \<and> (\<forall>c \<in> set (node_categories nb params acs ass pubs subs srvs).
                                   category_matches g node_name st c)),
                      validating_log node_name nb params
                        @ (if length (parameter_names nb) \<le> length (remdups (map fst params))
                           then first_failure_log g node_name st
                                  (node_categories nb params acs ass pubs subs srvs)
                           else []),
                      st')
             \<and> same_types g st' st))
       \<and> (distinct (parameter_names nb)
          \<and> (\<forall>c \<in> set (node_categories nb params acs ass pubs subs srvs).
                category_matches g node_name st c) \<longrightarrow>
            length (parameter_names nb) \<le> length (remdups (map fst params)))
       \<and> (\<forall>bt names. names \<noteq> [] \<longrightarrow> \<not> category_matches g node_name st (bt, names, []))
       \<and> (\<forall>bt names bank. names \<noteq> [] \<longrightarrow>
             match_token_types g bt node_name (list_to_io_dict names) bank None
               = Inr (PBool False, [], bank))
       \<and> (\<forall>bt spec. category_matches g node_name st (bt, [], spec))
       \<and> (\<forall>bt names spec. category_matches g node_name st (bt, names, spec) \<longrightarrow>
             (\<exists>f. typed_assignment g st (bt, names, spec) f))
       \<and> (\<forall>bt names spec. \<not> category_matches g node_name st (bt, names, spec)
               \<and> \<not> category_exits g node_name st (bt, names, spec) \<longrightarrow>
             (\<exists>n \<in> set names. unmatched_message node_name n
                 \<in> set (category_log g node_name st (bt, names, spec))))"
proof -
  let ?cs = "node_categories nb params acs ass pubs subs srvs"
  let ?enough = "length (parameter_names nb) \<le> length (remdups (map fst params))"
  note u = validate_unfold[OF assms, of g node_name nb st]
  note c = and_matches_char[OF same_types_refl, of ?enough g node_name st ?cs
      "validating_log node_name nb params"]
  have 1: "?enough \<and> categories_exit g node_name st ?cs \<longrightarrow>
            validate_node_builder g node_name nb node_spec st = Inl SystemExit"
    using u c by simp
  have 2: "\<not> (?enough \<and> categories_exit g node_name st ?cs) \<longrightarrow>
            (\<exists>st'. validate_node_builder g node_name nb node_spec st
               = Inr (PBool (?enough \<and> (\<forall>c \<in> set ?cs. category_matches g node_name st c)),
                      validating_log node_name nb params
                        @ (if ?enough then first_failure_log g node_name st ?cs else []),
                      st')
             \<and> same_types g st' st)"
    using u c by simp
  have 3: "distinct (parameter_names nb) \<and> (\<forall>c \<in> set ?cs. category_matches g node_name st c)
            \<longrightarrow> ?enough"
  proof
    assume a: "distinct (parameter_names nb) \<and> (\<forall>c \<in> set ?cs. category_matches g node_name st c)"
    then have "category_matches g node_name st (PARAMETER, parameter_names nb, params)"
      by (simp add: node_categories_def)
    from category_count[OF this] a show ?enough by simp
  qed
  have 4: "\<forall>bt names. names \<noteq> [] \<longrightarrow> \<not> category_matches g node_name st (bt, names, [])"
    using category_no_entries by blast
  have 5: "\<forall>bt names bank. names \<noteq> [] \<longrightarrow>
             match_token_types g bt node_name (list_to_io_dict names) bank None
               = Inr (PBool False, [], bank)"
    using category_none by blast
  have 6: "\<forall>bt spec. category_matches g node_name st (bt, [], spec)"
    using category_no_items by blast
  have 7: "\<forall>bt names spec. category_matches g node_name st (bt, names, spec) \<longrightarrow>
             (\<exists>f. typed_assignment g st (bt, names, spec) f)"
    using category_assignment by blast
  have 8: "\<forall>bt names spec. \<not> category_matches g node_name st (bt, names, spec)
               \<and> \<not> category_exits g node_name st (bt, names, spec) \<longrightarrow>
             (\<exists>n \<in> set names. unmatched_message node_name n
                 \<in> set (category_log g node_name st (bt, names, spec)))"
    using category_unmatched by blast
  from 1 2 3 4 5 6 7 8 show ?thesis by (intro conjI)
qed

lemma chatter_node_names:
  "parameter_names chatter_node = []" "action_clients chatter_node = []"
  "action_servers chatter_node = []" "published_topic_names chatter_node = [''/chat_out'']"
  "subscribed_topic_names chatter_node = [''/chat_in'']"
  "service_names_with_remap chatter_node = []"
  by (simp_all add: chatter_node_def)

lemma chatter_topic_bank: "get_bank_builder chatter_state TOPIC = topic_bank chatter_state"
  by simp

theorem validate_node_builder_first_failure_witness:
  "spec_category chatter_spec ''parameters'' = Inr (Some (SpecDict []))
   \<and> spec_category chatter_spec ''action_clients'' = Inr (Some (SpecDict []))
   \<and> spec_category chatter_spec ''action_servers'' = Inr (Some (SpecDict []))
   \<and> spec_category chatter_spec ''published_topics''
       = Inr (Some (SpecDict [(''chat_out'', PStr ''std_msgs/msg/String'')]))
   \<and> spec_category chatter_spec ''subscribed_topics''
       = Inr (Some (SpecDict [(''chat_in'', PStr ''std_msgs/msg/String'')]))
   \<and> spec_category chatter_spec ''services_provided'' = Inr (Some (SpecDict []))
   \<and> (\<exists>st'. validate_node_builder chatter_graph ''/foo'' chatter_node chatter_spec chatter_state
             = Inr (PBool True, [(DEBUG, ''Validating Node /foo ...'')], st'))
   \<and> (\<exists>st'. validate_node_builder chatter_graph ''/foo'' chatter_node chatter_spec_empty
               chatter_state
             = Inr (PBool False,
                    [(DEBUG, ''Validating Node /foo ...''),
                     unmatched_message ''/foo'' ''/chat_out''], st'))"
proof -
  note T = validate_node_builder_first_failure[OF chatter_categories,
      of chatter_node chatter_graph "''/foo''" chatter_state, THEN conjunct2, THEN conjunct1]
  note E = validate_node_builder_first_failure[OF chatter_empty_categories,
      of chatter_node chatter_graph "''/foo''" chatter_state, THEN conjunct2, THEN conjunct1]
  have t: "\<exists>st'. validate_node_builder chatter_graph ''/foo'' chatter_node chatter_spec chatter_state
             = Inr (PBool True, [(DEBUG, ''Validating Node /foo ...'')], st')"
    using T
    by (simp add: node_categories_def category_matches_def category_exits_def category_log_def
        validating_log_def chatter_node_names chatter_topic_bank chatter_matched chatter_no_names
        del: get_bank_builder.simps) blast
  have e: "\<exists>st'. validate_node_builder chatter_graph ''/foo'' chatter_node chatter_spec_empty
               chatter_state
             = Inr (PBool False,
                    [(DEBUG, ''Validating Node /foo ...''),
                     unmatched_message ''/foo'' ''/chat_out''], st')"
    using E
    by (simp add: node_categories_def category_matches_def category_exits_def category_log_def
        validating_log_def chatter_node_names chatter_topic_bank chatter_unmatched chatter_no_names
        del: get_bank_builder.simps) blast
  from t e chatter_categories show ?thesis by simp
qed

text \<open>Outside the amended claim: when a category of the specification is \<open>None\<close> and the node
  has no name in it, \<open>_match_token_types\<close> returns \<open>None\<close>, and so does \<open>_validate_node_builder\<close>
  for a node that matches everywhere else.\<close>

lemma validate_node_builder_none_category:
  "validate_node_builder chatter_graph ''/foo'' chatter_node
     (chatter_spec(''action_clients'' \<mapsto> Sc PNone)) chatter_state
     = Inr (PNone, [(DEBUG, ''Validating Node /foo ...'')], chatter_state)"
  unfolding validate_node_builder_def
  by (simp add: spec_category_def chatter_spec_def chatter_spec_empty_def chatter_node_def
      and_match_def match_token_types_def list_to_io_dict_def chatter_state_def)

end
